theory Spec2Isabelle
  imports Main
begin

section \<open>The API client (frontend/src/utils/api.ts)\<close>

text \<open>
  The client is a class with one mutable field (\<open>authToken\<close>) that also reads and
  writes the browser's \<open>localStorage\<close>, assigns \<open>window.location.href\<close> and
  raises toasts. Its methods are \<open>async\<close>: they run until an \<open>await\<close>, and are
  resumed when the awaited request settles. The model is the defunctionalised form of
  that: everything that is mutated is a field of the record \<open>world\<close>, the code after
  each \<open>await\<close> is a \<open>frame\<close>, the frames waiting for a request are stored under
  the request's number, and the arrival of a reply runs them. JavaScript runs one
  handler at a time, so a handler is one function from world to world.

  A JSON object is a finite map from property names to strings; a property that is
  missing reads as \<open>undefined\<close>, which is \<open>None\<close>. The request interceptor is
  taken to run at the moment a request is handed to axios. Of \<open>console.error\<close> only
  the label of each message is kept. Of the store, \<open>login\<close> is embedded; the
  persistence of the store between page loads is not.
\<close>

type_synonym json_object = "string \<rightharpoonup> string"

text \<open>\<open>interface ApiRequestConfig extends AxiosRequestConfig\<close>\<close>

record ApiRequestConfig =
  url :: string
  http_method :: string
  headers :: "string \<rightharpoonup> string"
  body :: "(string \<times> string) list"
  skipAuth :: bool
  skipErrorHandling :: bool

record AxiosResponse =
  status :: nat
  data :: json_object

text \<open>
  How a request can fail in axios: the server answered with a status outside 2xx
  (\<open>error.response\<close> is set), no answer arrived (\<open>error.request\<close> is set), or
  the request could not be set up (only \<open>error.message\<close>).
\<close>

datatype axios_failure = HttpError AxiosResponse | NoResponse | SetupFailure string

datatype net_outcome = Success AxiosResponse | Failure axios_failure

datatype js_error = AxiosError ApiRequestConfig axios_failure | TypeError | ReferenceError

datatype js_value = Undefined | Response AxiosResponse | Data json_object

datatype settled = Fulfilled js_value | Rejected js_error

text \<open>The zustand store of frontend/src/store/authStore.ts (its data fields).\<close>

record AuthState =
  user :: "json_object option"
  token :: "string option"
  isAuthenticated :: bool
  isLoading :: bool
  error :: "string option"

text \<open>
  The code that runs after an \<open>await\<close>:
  \<^item> \<open>ResponseData\<close>: \<open>return response.data\<close> of the public \<open>get\<close>, \<open>post\<close>,
    \<open>put\<close>, \<open>patch\<close>, \<open>delete\<close>;
  \<^item> \<open>InterceptorReturn\<close>: the \<open>return;\<close> of the response interceptor after
    \<open>await this.handleTokenExpiration()\<close>;
  \<^item> \<open>RefreshResume\<close>: \<open>handleTokenExpiration\<close> after the refresh call;
  \<^item> \<open>LoginToken\<close>: \<open>login\<close> after the call of \<open>/api/v1/auth/login\<close>;
  \<^item> \<open>LoginUser t\<close>: \<open>login\<close> after the call of \<open>/api/v1/auth/me\<close>, holding
    \<open>tokenResponse = t\<close>;
  \<^item> \<open>Caller c\<close>: the promise handed to the application by its \<open>c\<close>-th call.
\<close>

datatype frame =
    ResponseData
  | InterceptorReturn
  | RefreshResume
  | LoginToken
  | LoginUser json_object
  | Caller nat

text \<open>
  \<open>hasWindow\<close> is \<open>typeof window !== 'undefined'\<close>. \<open>Date_now\<close> and
  \<open>Math_random36\<close> are what \<open>Date.now()\<close> and
  \<open>Math.random().toString(36).substr(2, 9)\<close> return at the \<open>n\<close>-th generated
  correlation id; \<open>tick\<close> counts the ids generated so far. \<open>sent\<close> is the list of
  requests handed to the network, a request's number being its position; \<open>pending\<close>
  holds, for a request in flight, its configuration and the frames awaiting it.
  \<open>completed\<close> records how the application's calls settled.
\<close>

record world =
  authToken :: "string option"
  hasWindow :: bool
  localStorage :: "string \<rightharpoonup> string"
  href :: string
  toasts :: "string list"
  console :: "string list"
  Date_now :: "nat \<Rightarrow> nat"
  Math_random36 :: "nat \<Rightarrow> string"
  tick :: nat
  sent :: "ApiRequestConfig list"
  pending :: "nat \<rightharpoonup> (ApiRequestConfig \<times> frame list)"
  store :: AuthState
  calls :: nat
  completed :: "(nat \<times> settled) list"

text \<open>JavaScript truthiness of a \<open>string | null | undefined\<close>.\<close>

fun truthy :: "string option \<Rightarrow> bool" where
  "truthy None = False"
| "truthy (Some s) = (s \<noteq> [])"

text \<open>\<open>localStorage.setItem(k, v)\<close> stores the string conversion of \<open>v\<close>.\<close>

definition setItem :: "string \<Rightarrow> string option \<Rightarrow> world \<Rightarrow> world" where
  "setItem k v w =
     w\<lparr>localStorage := (localStorage w)(k \<mapsto> (case v of None \<Rightarrow> ''undefined'' | Some x \<Rightarrow> x))\<rparr>"

definition removeItem :: "string \<Rightarrow> world \<Rightarrow> world" where
  "removeItem k w = w\<lparr>localStorage := (localStorage w)(k := None)\<rparr>"

definition toast_error :: "string \<Rightarrow> world \<Rightarrow> world" where
  "toast_error m w = w\<lparr>toasts := toasts w @ [m]\<rparr>"

definition console_error :: "string \<Rightarrow> world \<Rightarrow> world" where
  "console_error m w = w\<lparr>console := console w @ [m]\<rparr>"

text \<open>Decimal rendering of a number, as the template literal does for \<open>Date.now()\<close>.\<close>

definition digit_char :: "nat \<Rightarrow> char" where
  "digit_char n = ''0123456789'' ! n"

fun string_of_nat :: "nat \<Rightarrow> string" where
  "string_of_nat n =
     (if n < 10 then [digit_char n] else string_of_nat (n div 10) @ [digit_char (n mod 10)])"

declare string_of_nat.simps [simp del]

definition generateCorrelationId :: "world \<Rightarrow> string" where
  "generateCorrelationId w =
     string_of_nat (Date_now w (tick w)) @ ''-'' @ Math_random36 w (tick w)"

text \<open>The request interceptor (\<open>setupInterceptors\<close>, first handler).\<close>

definition requestInterceptor :: "world \<Rightarrow> ApiRequestConfig \<Rightarrow> ApiRequestConfig" where
  "requestInterceptor w config =
     (let config1 =
        (if truthy (authToken w) \<and> \<not> skipAuth config
         then config\<lparr>headers := (headers config)(''Authorization'' \<mapsto> ''Bearer '' @ the (authToken w))\<rparr>
         else config)
      in config1\<lparr>headers := (headers config1)(''X-Correlation-ID'' \<mapsto> generateCorrelationId w)\<rparr>)"

definition loadAuthToken :: "world \<Rightarrow> world" where
  "loadAuthToken w =
     (if hasWindow w then w\<lparr>authToken := localStorage w ''access_token''\<rparr> else w)"

definition saveAuthToken :: "string option \<Rightarrow> world \<Rightarrow> world" where
  "saveAuthToken t w =
     (let w1 = w\<lparr>authToken := t\<rparr>
      in if hasWindow w1 then setItem ''access_token'' t w1 else w1)"

definition clearAuthToken :: "world \<Rightarrow> world" where
  "clearAuthToken w =
     (let w1 = w\<lparr>authToken := None\<rparr>
      in if hasWindow w1 then removeItem ''refresh_token'' (removeItem ''access_token'' w1) else w1)"

definition setAuthToken :: "string option \<Rightarrow> world \<Rightarrow> world" where
  "setAuthToken t w = saveAuthToken t w"

definition clearAuth :: "world \<Rightarrow> world" where
  "clearAuth w = clearAuthToken w"

text \<open>\<open>handleApiError\<close>: the message shown for a failed request.\<close>

definition handleApiError :: "axios_failure \<Rightarrow> world \<Rightarrow> world" where
  "handleApiError f w =
     (let message = ''An unexpected error occurred''
      in case f of
           HttpError r \<Rightarrow>
             (let message = (if truthy (data r ''detail'') then the (data r ''detail'') else message);
                  w1 = console_error ''API Error:'' w
              in if status r = 400 then toast_error (''Validation Error: '' @ message) w1
                 else if status r = 401 then toast_error ''Authentication required'' w1
                 else if status r = 403 then toast_error ''Permission denied'' w1
                 else if status r = 404 then toast_error ''Resource not found'' w1
                 else if status r = 429 then toast_error ''Too many requests. Please try again later.'' w1
                 else if status r = 500 then toast_error ''Server error. Please try again later.'' w1
                 else toast_error message w1)
         | NoResponse \<Rightarrow>
             toast_error ''Network error. Please check your connection.'' (console_error ''Network Error:'' w)
         | SetupFailure m \<Rightarrow> toast_error message (console_error ''Error:'' w))"

text \<open>
  Handing a request to axios: the request interceptor runs, the request goes out, and
  the frames \<open>k\<close> wait for it.
\<close>

definition send :: "ApiRequestConfig \<Rightarrow> frame list \<Rightarrow> world \<Rightarrow> world" where
  "send config k w =
     (let config1 = requestInterceptor w config
      in w\<lparr>tick := Suc (tick w),
           sent := sent w @ [config1],
           pending := (pending w)(length (sent w) \<mapsto> (config1, k))\<rparr>)"

text \<open>The instance's defaults (\<open>axios.create\<close>) with a call's own settings.\<close>

definition request_config :: "string \<Rightarrow> string \<Rightarrow> (string \<times> string) list \<Rightarrow> ApiRequestConfig" where
  "request_config m u d =
     \<lparr>url = u, http_method = m, headers = [''Content-Type'' \<mapsto> ''application/json''],
      body = d, skipAuth = False, skipErrorHandling = False\<rparr>"

definition refresh_config :: "string \<Rightarrow> ApiRequestConfig" where
  "refresh_config refreshToken =
     (request_config ''post'' ''/api/v1/auth/refresh'' [(''refresh_token'', refreshToken)])
       \<lparr>skipAuth := True\<rparr>"

definition login_config :: "string \<Rightarrow> string \<Rightarrow> ApiRequestConfig" where
  "login_config username password =
     (request_config ''post'' ''/api/v1/auth/login'' [(''username'', username), (''password'', password)])
       \<lparr>headers := [''Content-Type'' \<mapsto> ''application/x-www-form-urlencoded'']\<rparr>"

text \<open>
  The \<open>catch\<close> block of \<open>handleTokenExpiration\<close>. Without a window the assignment
  to \<open>window.location.href\<close> raises a ReferenceError, which leaves the function.
\<close>

definition expiration_catch :: "world \<Rightarrow> world \<times> settled" where
  "expiration_catch w =
     (let w1 = toast_error ''Session expired. Please log in again.'' (clearAuthToken w)
      in if hasWindow w1 then (w1\<lparr>href := ''/auth/login''\<rparr>, Fulfilled Undefined)
         else (w1, Rejected ReferenceError))"

text \<open>The \<open>catch\<close> block of \<open>login\<close>: \<open>error.response?.data?.detail || 'Login failed'\<close>.\<close>

fun failure_detail :: "axios_failure \<Rightarrow> string option" where
  "failure_detail (HttpError r) = data r ''detail''"
| "failure_detail f = None"

fun response_detail :: "js_error \<Rightarrow> string option" where
  "response_detail (AxiosError c f) = failure_detail f"
| "response_detail e = None"

definition login_catch :: "js_error \<Rightarrow> world \<Rightarrow> world" where
  "login_catch e w =
     (let errorMessage =
        (if truthy (response_detail e) then the (response_detail e) else ''Login failed'')
      in w\<lparr>store := (store w)\<lparr>user := None, token := None, isAuthenticated := False,
                               isLoading := False, error := Some errorMessage\<rparr>\<rparr>)"

text \<open>
  Running the frames that waited for a value. A frame either passes a settled value on
  to the next one or, in \<open>login\<close> after the token arrived, sends the next request
  and leaves the remaining frames waiting for it.
\<close>

fun run :: "frame list \<Rightarrow> settled \<Rightarrow> world \<Rightarrow> world" where
  "run [] r w = w"
| "run (Caller c # k) r w = run k r (w\<lparr>completed := completed w @ [(c, r)]\<rparr>)"
| "run (ResponseData # k) r w =
     (case r of
        Fulfilled (Response resp) \<Rightarrow> run k (Fulfilled (Data (data resp))) w
      | Fulfilled Undefined \<Rightarrow> run k (Rejected TypeError) w
      | Fulfilled (Data d) \<Rightarrow> run k (Fulfilled Undefined) w
      | Rejected e \<Rightarrow> run k (Rejected e) w)"
| "run (InterceptorReturn # k) r w =
     (case r of
        Fulfilled v \<Rightarrow> run k (Fulfilled Undefined) w
      | Rejected e \<Rightarrow> run k (Rejected e) w)"
| "run (RefreshResume # k) r w =
     (case r of
        Fulfilled (Response resp) \<Rightarrow>
          (let w1 = saveAuthToken (data resp ''access_token'') w;
               w2 = (if hasWindow w1 then setItem ''refresh_token'' (data resp ''refresh_token'') w1 else w1)
           in run k (Fulfilled Undefined) w2)
      | Fulfilled v \<Rightarrow> (case expiration_catch w of (w1, r1) \<Rightarrow> run k r1 w1)
      | Rejected e \<Rightarrow> (case expiration_catch w of (w1, r1) \<Rightarrow> run k r1 w1))"
| "run (LoginToken # k) r w =
     (case r of
        Fulfilled (Data tokenResponse) \<Rightarrow>
          send (request_config ''get'' ''/api/v1/auth/me'' [])
               (ResponseData # LoginUser tokenResponse # k)
               (setAuthToken (tokenResponse ''access_token'') w)
      | Fulfilled v \<Rightarrow> run k (Rejected TypeError) (login_catch TypeError w)
      | Rejected e \<Rightarrow> run k (Rejected e) (login_catch e w))"
| "run (LoginUser tokenResponse # k) r w =
     (case r of
        Fulfilled v \<Rightarrow>
          (let w1 = (if hasWindow w then setItem ''refresh_token'' (tokenResponse ''refresh_token'') w else w);
               w2 = w1\<lparr>store := (store w1)\<lparr>user := (case v of Data u \<Rightarrow> Some u | _ \<Rightarrow> None),
                                            token := tokenResponse ''access_token'',
                                            isAuthenticated := True, isLoading := False, error := None\<rparr>\<rparr>
           in run k (Fulfilled Undefined) w2)
      | Rejected e \<Rightarrow> run k (Rejected e) (login_catch e w))"

text \<open>
  \<open>handleTokenExpiration\<close> up to its \<open>await\<close>; \<open>k\<close> are the frames of the
  response interceptor that called it.
\<close>

definition handleTokenExpiration :: "frame list \<Rightarrow> world \<Rightarrow> world" where
  "handleTokenExpiration k w =
     (let refreshToken = (if hasWindow w then localStorage w ''refresh_token'' else None)
      in if \<not> truthy refreshToken
         then (let w1 = clearAuthToken w
               in if hasWindow w1 then run k (Fulfilled Undefined) (w1\<lparr>href := ''/auth/login''\<rparr>)
                  else (case expiration_catch w1 of (w2, r2) \<Rightarrow> run k r2 w2))
         else send (refresh_config (the refreshToken)) (RefreshResume # k) w)"

fun failure_status :: "axios_failure \<Rightarrow> nat option" where
  "failure_status (HttpError r) = Some (status r)"
| "failure_status f = None"

text \<open>
  The response interceptor (\<open>setupInterceptors\<close>, second pair of handlers), run when
  the reply to request \<open>rid\<close> arrives.
\<close>

definition reply :: "nat \<Rightarrow> net_outcome \<Rightarrow> world \<Rightarrow> world" where
  "reply rid out w =
     (case pending w rid of
        None \<Rightarrow> w
      | Some (config, k) \<Rightarrow>
          (let w0 = w\<lparr>pending := (pending w)(rid := None)\<rparr>
           in case out of
                Success resp \<Rightarrow> run k (Fulfilled (Response resp)) w0
              | Failure f \<Rightarrow>
                  if failure_status f = Some 401 \<and> \<not> skipAuth config
                  then handleTokenExpiration (InterceptorReturn # k) w0
                  else run k (Rejected (AxiosError config f))
                         (if \<not> skipErrorHandling config then handleApiError f w0 else w0)))"

text \<open>A call of a public method of the client by the application.\<close>

definition api_call :: "ApiRequestConfig \<Rightarrow> world \<Rightarrow> world" where
  "api_call config w = send config [ResponseData, Caller (calls w)] (w\<lparr>calls := Suc (calls w)\<rparr>)"

text \<open>\<open>useAuthStore.login\<close> up to its first \<open>await\<close>.\<close>

definition login :: "string \<Rightarrow> string \<Rightarrow> world \<Rightarrow> world" where
  "login username password w =
     (let w1 = w\<lparr>store := (store w)\<lparr>isLoading := True, error := None\<rparr>, calls := Suc (calls w)\<rparr>
      in send (login_config username password) [ResponseData, LoginToken, Caller (calls w)] w1)"

datatype event =
    Call ApiRequestConfig
  | Login string string
  | Reply nat net_outcome

fun step :: "world \<Rightarrow> event \<Rightarrow> world" where
  "step w (Call config) = api_call config w"
| "step w (Login u p) = login u p w"
| "step w (Reply rid out) = reply rid out w"

definition exec :: "world \<Rightarrow> event list \<Rightarrow> world" where
  "exec w evs = foldl step w evs"

text \<open>The module's initial state: \<open>new ApiClient()\<close> and the store's initial values.\<close>

definition new_world :: "bool \<Rightarrow> (string \<rightharpoonup> string) \<Rightarrow> (nat \<Rightarrow> nat) \<Rightarrow> (nat \<Rightarrow> string) \<Rightarrow> world" where
  "new_world win ls clock rnd =
     loadAuthToken
       \<lparr>authToken = None, hasWindow = win, localStorage = ls, href = ''/'', toasts = [],
        console = [], Date_now = clock, Math_random36 = rnd, tick = 0, sent = [],
        pending = Map.empty,
        store = \<lparr>user = None, token = None, isAuthenticated = False, isLoading = False, error = None\<rparr>,
        calls = 0, completed = []\<rparr>"

definition refresh_calls :: "world \<Rightarrow> nat" where
  "refresh_calls w = length (filter (\<lambda>c. url c = ''/api/v1/auth/refresh'') (sent w))"

text \<open>A browser session holding both tokens, and the reply of an API that rejects the token.\<close>

definition browser_session :: world where
  "browser_session =
     new_world True [''access_token'' \<mapsto> ''a0'', ''refresh_token'' \<mapsto> ''r0'']
       (\<lambda>n. 1700000000000 + n) (\<lambda>n. ''k3j9x2m1q'')"

definition unauthorized :: net_outcome where
  "unauthorized =
     Failure (HttpError \<lparr>status = 401, data = [''detail'' \<mapsto> ''Could not validate credentials'']\<rparr>)"

text \<open>Frames that receive neither a response nor data send nothing.\<close>

fun inert :: "settled \<Rightarrow> bool" where
  "inert (Fulfilled Undefined) = True"
| "inert (Rejected e) = True"
| "inert r = False"

text \<open>A browser that holds no token: a visitor who has not logged in.\<close>

definition visitor :: world where
  "visitor = new_world True Map.empty (\<lambda>n. 1700000000000 + n) (\<lambda>n. ''k3j9x2m1q'')"

text \<open>
  Every request sent so far carries the correlation id generated for it: the \<open>i\<close>-th
  request the id made of the \<open>i\<close>-th reading of the clock and the \<open>i\<close>-th random
  draw.
\<close>

definition stamped :: "(nat \<Rightarrow> nat) \<Rightarrow> (nat \<Rightarrow> string) \<Rightarrow> world \<Rightarrow> bool" where
  "stamped clock rnd w =
     (Date_now w = clock \<and> Math_random36 w = rnd \<and> tick w = length (sent w) \<and>
      (\<forall>i < length (sent w).
         headers (sent w ! i) ''X-Correlation-ID'' = Some (string_of_nat (clock i) @ ''-'' @ rnd i)))"



section \<open>Password validation (frontend/src/utils/api.ts, \<open>validatePassword\<close>)\<close>

text \<open>
  \<open>validatePassword\<close> is \<open>passwordRegex.test(password)\<close> for the literal
  \<^verbatim>\<open>/^(?=.*[a-z])(?=.*[A-Z])(?=.*\d)[a-zA-Z\d@$!%*?&]{8,}$/\<close>.
  The model is that pattern as a syntax tree, with the match relation of ECMAScript
  patterns for the constructs it uses. A JavaScript string is a sequence of UTF-16 code
  units, here natural numbers; the pattern has no flags, so it is matched code unit by
  code unit, \<open>^\<close> and \<open>$\<close> match at the two ends of the input only, and \<open>.\<close>
  matches every code unit but the four line terminators.
\<close>

datatype class_item = CharRange char char | Lit char | Digit

datatype regex =
    Bol
  | Eol
  | Any
  | Class "class_item list"
  | Cat regex regex
  | Star regex
  | AtLeast nat regex
  | Lookahead regex

text \<open>Membership of a code unit in an item of a character class; \<open>\d\<close> is \<open>[0-9]\<close>.\<close>

fun in_item :: "class_item \<Rightarrow> nat \<Rightarrow> bool" where
  "in_item (CharRange a b) u = (of_char a \<le> u \<and> u \<le> of_char b)"
| "in_item (Lit a) u = (u = of_char a)"
| "in_item Digit u = (of_char CHR ''0'' \<le> u \<and> u \<le> of_char CHR ''9'')"

definition line_terminator :: "nat \<Rightarrow> bool" where
  "line_terminator u = (u = 0x0A \<or> u = 0x0D \<or> u = 0x2028 \<or> u = 0x2029)"

text \<open>
  \<open>iter p e n i j\<close>: \<open>n\<close> successive matches of \<open>p\<close> lead from position \<open>i\<close>
  to position \<open>j\<close>. An iteration of a quantifier beyond its minimum must consume input
  (the empty check of the pattern semantics): \<open>e\<close> says whether empty iterations count.
\<close>

fun iter :: "(nat \<Rightarrow> nat \<Rightarrow> bool) \<Rightarrow> bool \<Rightarrow> nat \<Rightarrow> nat \<Rightarrow> nat \<Rightarrow> bool" where
  "iter p e 0 i j = (i = j)"
| "iter p e (Suc n) i j = (\<exists>k\<in>{i..j}. (e \<or> i < k) \<and> p i k \<and> iter p e n k j)"

text \<open>
  \<open>matches r s i j\<close>: the pattern \<open>r\<close> matches the input \<open>s\<close> from position
  \<open>i\<close> up to position \<open>j\<close>. The order in which a backtracking matcher tries the
  alternatives is left out: \<open>test\<close> only asks whether some match exists.
\<close>

primrec matches :: "regex \<Rightarrow> nat list \<Rightarrow> nat \<Rightarrow> nat \<Rightarrow> bool" where
  "matches Bol s i j = (i = 0 \<and> j = i)"
| "matches Eol s i j = (i = length s \<and> j = i)"
| "matches Any s i j = (i < length s \<and> j = Suc i \<and> \<not> line_terminator (s ! i))"
| "matches (Class c) s i j = (i < length s \<and> j = Suc i \<and> (\<exists>x\<in>set c. in_item x (s ! i)))"
| "matches (Cat a b) s i j = (\<exists>k\<in>{i..j}. matches a s i k \<and> matches b s k j)"
| "matches (Star a) s i j = (\<exists>n\<in>{0..j - i}. iter (matches a s) False n i j)"
| "matches (AtLeast m a) s i j =
     (\<exists>k\<in>{i..j}. iter (matches a s) True m i k \<and> (\<exists>n\<in>{0..j - k}. iter (matches a s) False n k j))"
| "matches (Lookahead a) s i j = (j = i \<and> (\<exists>k\<in>{i..length s}. matches a s i k))"

text \<open>\<open>RegExp.prototype.test\<close> of a pattern without flags: a match starting anywhere.\<close>

definition test :: "regex \<Rightarrow> nat list \<Rightarrow> bool" where
  "test r s = (\<exists>i\<in>{0..length s}. \<exists>j\<in>{i..length s}. matches r s i j)"

definition passwordRegex :: regex where
  "passwordRegex =
     Cat Bol
    (Cat (Lookahead (Cat (Star Any) (Class [CharRange CHR ''a'' CHR ''z''])))
    (Cat (Lookahead (Cat (Star Any) (Class [CharRange CHR ''A'' CHR ''Z''])))
    (Cat (Lookahead (Cat (Star Any) (Class [Digit])))
    (Cat (AtLeast 8 (Class [CharRange CHR ''a'' CHR ''z'', CharRange CHR ''A'' CHR ''Z'', Digit,
                            Lit CHR ''@'', Lit CHR ''$'', Lit CHR ''!'', Lit CHR ''%'',
                            Lit CHR ''*'', Lit CHR ''?'', Lit CHR ''&'']))
         Eol))))"

definition validatePassword :: "nat list \<Rightarrow> bool" where
  "validatePassword password = test passwordRegex password"

text \<open>An ASCII string literal as code units.\<close>

definition js :: "string \<Rightarrow> nat list" where
  "js s = map of_char s"

text \<open>
  The property in the words of the claim: at least 8 code units, only ASCII letters,
  digits and the symbols \<open>@$!%*?&\<close>, at least one lowercase letter, one uppercase
  letter and one digit.
\<close>

definition ascii_lower :: "nat \<Rightarrow> bool" where "ascii_lower u = (97 \<le> u \<and> u \<le> 122)"
definition ascii_upper :: "nat \<Rightarrow> bool" where "ascii_upper u = (65 \<le> u \<and> u \<le> 90)"
definition ascii_digit :: "nat \<Rightarrow> bool" where "ascii_digit u = (48 \<le> u \<and> u \<le> 57)"
definition listed_symbol :: "nat \<Rightarrow> bool" where "listed_symbol u = (u \<in> set (js ''@$!%*?&''))"

definition password_accepted :: "nat list \<Rightarrow> bool" where
  "password_accepted pw =
     (8 \<le> length pw \<and>
      (\<forall>u\<in>set pw. ascii_lower u \<or> ascii_upper u \<or> ascii_digit u \<or> listed_symbol u) \<and>
      (\<exists>u\<in>set pw. ascii_lower u) \<and> (\<exists>u\<in>set pw. ascii_upper u) \<and> (\<exists>u\<in>set pw. ascii_digit u))"

section \<open>The \<open>queries\<close> table (database initialisation script)\<close>

text \<open>
  The script creates the table \<open>queries\<close> with a primary key, NOT NULL columns, a
  self-reference \<open>parent_query_id REFERENCES queries(id)\<close>, a reference to
  \<open>users(id)\<close> and the constraint
  \<^verbatim>\<open>user_rating INTEGER CHECK (user_rating >= 1 AND user_rating <= 5)\<close>.
  A row of the model has the columns that a constraint mentions, together with
  \<open>conversation_id\<close> and \<open>user_feedback\<close>; a nullable column is an option, and
  so is a NOT NULL column, whose NULL the table refuses. The other columns (texts, JSON
  documents, timings, timestamps) are under no constraint and are left out.
\<close>

record queries_row =
  query_id :: int
  query_text :: "string option"
  query_type :: "string option"
  query_status :: "string option"
  conversation_id :: "string option"
  parent_query_id :: "int option"
  user_rating :: "int option"
  user_feedback :: "string option"
  user_id :: "int option"

text \<open>SQL's three truth values; a comparison with NULL is unknown.\<close>

datatype sql_bool = SqlTrue | SqlFalse | SqlNull

fun sql_ge :: "int option \<Rightarrow> int \<Rightarrow> sql_bool" where
  "sql_ge None b = SqlNull"
| "sql_ge (Some a) b = (if a \<ge> b then SqlTrue else SqlFalse)"

fun sql_le :: "int option \<Rightarrow> int \<Rightarrow> sql_bool" where
  "sql_le None b = SqlNull"
| "sql_le (Some a) b = (if a \<le> b then SqlTrue else SqlFalse)"

fun sql_and :: "sql_bool \<Rightarrow> sql_bool \<Rightarrow> sql_bool" where
  "sql_and SqlFalse y = SqlFalse"
| "sql_and x SqlFalse = SqlFalse"
| "sql_and SqlTrue SqlTrue = SqlTrue"
| "sql_and x y = SqlNull"

text \<open>\<open>CHECK (user_rating >= 1 AND user_rating <= 5)\<close>: a row passes unless the condition is false.\<close>

definition user_rating_check :: "queries_row \<Rightarrow> bool" where
  "user_rating_check row =
     (sql_and (sql_ge (user_rating row) 1) (sql_le (user_rating row) 5) \<noteq> SqlFalse)"

definition not_null_columns :: "queries_row \<Rightarrow> bool" where
  "not_null_columns row =
     (query_text row \<noteq> None \<and> query_type row \<noteq> None \<and> query_status row \<noteq> None \<and>
      user_id row \<noteq> None)"

text \<open>The two references of a row, against the users and the rows of the table.\<close>

definition references_hold :: "int list \<Rightarrow> queries_row list \<Rightarrow> queries_row \<Rightarrow> bool" where
  "references_hold users tbl row =
     ((case user_id row of None \<Rightarrow> True | Some u \<Rightarrow> u \<in> set users) \<and>
      (case parent_query_id row of None \<Rightarrow> True | Some p \<Rightarrow> p \<in> set (map query_id tbl)))"

datatype sql_error = NotNullViolation | CheckViolation | UniqueViolation | ForeignKeyViolation

text \<open>\<open>INSERT INTO queries\<close> of one row (its defaults filled in).\<close>

definition insert_query :: "int list \<Rightarrow> queries_row list \<Rightarrow> queries_row \<Rightarrow> sql_error + queries_row list" where
  "insert_query users tbl row =
     (if \<not> not_null_columns row then Inl NotNullViolation
      else if \<not> user_rating_check row then Inl CheckViolation
      else if query_id row \<in> set (map query_id tbl) then Inl UniqueViolation
      else if \<not> references_hold users (tbl @ [row]) row then Inl ForeignKeyViolation
      else Inr (tbl @ [row]))"

text \<open>
  \<open>UPDATE queries SET ... WHERE id = qid\<close>: the row with that key gets the new values
  of its columns, the key itself staying.
\<close>

definition update_query :: "int list \<Rightarrow> queries_row list \<Rightarrow> int \<Rightarrow> queries_row \<Rightarrow> sql_error + queries_row list" where
  "update_query users tbl qid row =
     (let row1 = row\<lparr>query_id := qid\<rparr>
      in if qid \<notin> set (map query_id tbl) then Inr tbl
         else if \<not> not_null_columns row1 then Inl NotNullViolation
         else if \<not> user_rating_check row1 then Inl CheckViolation
         else if \<not> references_hold users tbl row1 then Inl ForeignKeyViolation
         else Inr (map (\<lambda>r. if query_id r = qid then row1 else r) tbl))"

text \<open>\<open>DELETE FROM queries WHERE id = qid\<close>; another row that refers to it forbids it.\<close>

definition delete_query :: "queries_row list \<Rightarrow> int \<Rightarrow> sql_error + queries_row list" where
  "delete_query tbl qid =
     (if \<exists>r\<in>set tbl. query_id r \<noteq> qid \<and> parent_query_id r = Some qid then Inl ForeignKeyViolation
      else Inr (filter (\<lambda>r. query_id r \<noteq> qid) tbl))"

datatype sql_statement = Insert queries_row | Update int queries_row | Delete int

fun execute :: "int list \<Rightarrow> queries_row list \<Rightarrow> sql_statement \<Rightarrow> sql_error + queries_row list" where
  "execute users tbl (Insert row) = insert_query users tbl row"
| "execute users tbl (Update qid row) = update_query users tbl qid row"
| "execute users tbl (Delete qid) = delete_query tbl qid"

text \<open>A script of statements; a statement that fails leaves the table as it was.\<close>

fun execute_all :: "int list \<Rightarrow> queries_row list \<Rightarrow> sql_statement list \<Rightarrow> queries_row list" where
  "execute_all users tbl [] = tbl"
| "execute_all users tbl (st # sts) =
     (case execute users tbl st of
        Inl e \<Rightarrow> execute_all users tbl sts
      | Inr tbl1 \<Rightarrow> execute_all users tbl1 sts)"

definition rating_in_range :: "queries_row \<Rightarrow> bool" where
  "rating_in_range row = (case user_rating row of None \<Rightarrow> True | Some r \<Rightarrow> 1 \<le> r \<and> r \<le> 5)"

definition sample_query :: queries_row where
  "sample_query =
     \<lparr>query_id = 1, query_text = Some ''What is X?'', query_type = Some ''semantic'',
      query_status = Some ''completed'', conversation_id = Some ''c1'', parent_query_id = None,
      user_rating = None, user_feedback = None, user_id = Some 7\<rparr>"

section \<open>The Query Orchestrator (specification, section 4.2)\<close>

text \<open>
  The sources hold the table and the TypeScript type of a query, not the backend that
  writes them. What the specification says of that backend is modelled here, over the
  table of the previous section.
\<close>

record submit_options =
  opt_conversationId :: "string option"
  opt_parentQueryId :: "int option"
  include_sources :: bool
  max_results :: nat

datatype orchestrator_error = InvalidThread | NotFound | Forbidden | InvalidState | Store sql_error

text \<open>
  Modelled from the spec: the bookkeeping \<open>submit\<close> needs and the sources do not
  have, the conversation ids in use and the next value of the key's sequence.
\<close>

definition conversations :: "queries_row list \<Rightarrow> string list" where
  "conversations tbl = concat (map (\<lambda>q. case conversation_id q of None \<Rightarrow> [] | Some c \<Rightarrow> [c]) tbl)"

definition next_query_id :: "queries_row list \<Rightarrow> int" where
  "next_query_id tbl = 1 + foldr max (map query_id tbl) 0"

definition stored :: "sql_error + queries_row list \<Rightarrow> orchestrator_error + queries_row list" where
  "stored r = (case r of Inl e \<Rightarrow> Inl (Store e) | Inr tbl \<Rightarrow> Inr tbl)"

text \<open>
  Modelled from the spec: the minting of a conversation id, missing from the sources.
  The specification asks for a fresh id, unique among all conversations, and does not
  say how it is made. Here it is made one character longer than every id in use, so
  that it can equal none of them.
\<close>

definition mint_conversation_id :: "string list \<Rightarrow> string" where
  "mint_conversation_id used = replicate (Suc (foldr max (map length used) 0)) CHR ''c''"

text \<open>
  Modelled from the spec: the thread resolution of \<open>submit(userId, text, options)\<close>,
  which is missing from the sources. If a parent is given it must exist and belong to
  the same user, and the conversation id is copied from it (a supplied conversation id
  that differs from the parent's is rejected, the stricter reading the specification
  asks for); otherwise a supplied conversation id is used; otherwise a fresh one is
  minted.
\<close>

definition resolve_thread ::
  "queries_row list \<Rightarrow> int \<Rightarrow> submit_options \<Rightarrow>
     orchestrator_error + string option" where
  "resolve_thread tbl userId opts =
     (case opt_parentQueryId opts of
        Some p \<Rightarrow>
          (case find (\<lambda>q. query_id q = p) tbl of
             None \<Rightarrow> Inl InvalidThread
           | Some parent \<Rightarrow>
               if user_id parent \<noteq> Some userId then Inl InvalidThread
               else if opt_conversationId opts \<noteq> None \<and>
                       opt_conversationId opts \<noteq> conversation_id parent then Inl InvalidThread
               else Inr (conversation_id parent))
      | None \<Rightarrow>
          (case opt_conversationId opts of
             Some c \<Rightarrow> Inr (Some c)
           | None \<Rightarrow> Inr (Some (mint_conversation_id (conversations tbl)))))"

text \<open>
  Modelled from the spec: \<open>submit\<close> creates the pending row with the resolved thread;
  it returns the table and the new row.
\<close>

definition submit ::
  "int list \<Rightarrow> queries_row list \<Rightarrow> int \<Rightarrow> string \<Rightarrow> submit_options \<Rightarrow>
     orchestrator_error + (queries_row list \<times> queries_row)" where
  "submit users tbl userId text opts =
     (case resolve_thread tbl userId opts of
        Inl e \<Rightarrow> Inl e
      | Inr conv \<Rightarrow>
          (let row = \<lparr>query_id = next_query_id tbl, query_text = Some text,
                      query_type = Some ''semantic'', query_status = Some ''pending'',
                      conversation_id = conv, parent_query_id = opt_parentQueryId opts,
                      user_rating = None, user_feedback = None, user_id = Some userId\<rparr>
           in case insert_query users tbl row of
                Inl e \<Rightarrow> Inl (Store e)
              | Inr tbl1 \<Rightarrow> Inr (tbl1, row)))"

text \<open>
  Modelled from the spec: the outcome of the external call, missing from the sources,
  moves a pending query to \<open>completed\<close> or \<open>failed\<close>.
\<close>

definition resolve_query :: "int list \<Rightarrow> queries_row list \<Rightarrow> int \<Rightarrow> bool \<Rightarrow> orchestrator_error + queries_row list" where
  "resolve_query users tbl qid succeeded =
     (case find (\<lambda>q. query_id q = qid) tbl of
        None \<Rightarrow> Inl NotFound
      | Some q \<Rightarrow>
          if query_status q \<noteq> Some ''pending'' then Inl InvalidState
          else stored (update_query users tbl qid
                 (q\<lparr>query_status := Some (if succeeded then ''completed'' else ''failed'')\<rparr>)))"

text \<open>
  Modelled from the spec: \<open>rate(queryId, userId, rating, feedback)\<close>, missing from the
  sources, attaches a rating to a completed query of the caller.
\<close>

definition rate :: "int list \<Rightarrow> queries_row list \<Rightarrow> int \<Rightarrow> int \<Rightarrow> int \<Rightarrow> string option \<Rightarrow> orchestrator_error + queries_row list" where
  "rate users tbl qid userId rating feedback =
     (case find (\<lambda>q. query_id q = qid) tbl of
        None \<Rightarrow> Inl NotFound
      | Some q \<Rightarrow>
          if user_id q \<noteq> Some userId then Inl Forbidden
          else if query_status q \<noteq> Some ''completed'' then Inl InvalidState
          else stored (update_query users tbl qid (q\<lparr>user_rating := Some rating, user_feedback := feedback\<rparr>)))"

text \<open>
  Modelled from the spec: the calls of the orchestrator one after the other; a call that
  fails leaves the table as it was.
\<close>

datatype orchestrator_call =
    Submit int string submit_options
  | Resolve int bool
  | Rate int int int "string option"

fun orchestrate ::
  "int list \<Rightarrow> queries_row list \<Rightarrow> orchestrator_call \<Rightarrow>
     orchestrator_error + queries_row list" where
  "orchestrate users tbl (Submit userId text opts) =
     (case submit users tbl userId text opts of Inl e \<Rightarrow> Inl e | Inr (tbl1, row) \<Rightarrow> Inr tbl1)"
| "orchestrate users tbl (Resolve qid succeeded) = resolve_query users tbl qid succeeded"
| "orchestrate users tbl (Rate qid userId rating feedback) = rate users tbl qid userId rating feedback"

fun orchestrate_all ::
  "int list \<Rightarrow> queries_row list \<Rightarrow> orchestrator_call list \<Rightarrow> queries_row list" where
  "orchestrate_all users tbl [] = tbl"
| "orchestrate_all users tbl (c # cs) =
     (case orchestrate users tbl c of
        Inl e \<Rightarrow> orchestrate_all users tbl cs
      | Inr tbl1 \<Rightarrow> orchestrate_all users tbl1 cs)"

text \<open>Every child is in the conversation of its parent, and keys are not repeated.\<close>

definition threaded :: "queries_row list \<Rightarrow> bool" where
  "threaded tbl =
     (distinct (map query_id tbl) \<and>
      (\<forall>q\<in>set tbl. \<forall>p. parent_query_id q = Some p \<longrightarrow>
         (\<exists>parent\<in>set tbl. query_id parent = p \<and> conversation_id q = conversation_id parent)))"

definition no_options :: submit_options where
  "no_options = \<lparr>opt_conversationId = None, opt_parentQueryId = None, include_sources = True, max_results = 5\<rparr>"

text \<open>
  The two rows of a conversation of two questions by user 7, and the row of a question
  that opens another conversation.
\<close>

definition first_question :: queries_row where
  "first_question =
     \<lparr>query_id = 1, query_text = Some ''What is X?'', query_type = Some ''semantic'',
      query_status = Some ''pending'', conversation_id = Some ''c'', parent_query_id = None,
      user_rating = None, user_feedback = None, user_id = Some 7\<rparr>"

definition follow_up :: queries_row where
  "follow_up =
     \<lparr>query_id = 2, query_text = Some ''And Y?'', query_type = Some ''semantic'',
      query_status = Some ''pending'', conversation_id = Some ''c'', parent_query_id = Some 1,
      user_rating = None, user_feedback = None, user_id = Some 7\<rparr>"

definition other_question :: queries_row where
  "other_question =
     \<lparr>query_id = 3, query_text = Some ''What is Z?'', query_type = Some ''semantic'',
      query_status = Some ''pending'', conversation_id = Some ''cc'', parent_query_id = None,
      user_rating = None, user_feedback = None, user_id = Some 7\<rparr>"

section \<open>The Document Lifecycle Manager (specification, section 4.1)\<close>

text \<open>
  The sources hold the \<open>documents\<close> table and the TypeScript type \<open>Document\<close>,
  whose \<open>processing_status\<close> is one of four literals and whose
  \<open>notebooklm_document_id\<close> is optional; the table couples the two columns by no
  constraint. The backend that writes them is not among the sources; what the
  specification says of it is modelled here.
\<close>

datatype processing_state = Pending | Processing | Completed | Failed

record Document =
  document_id :: nat
  owner_id :: nat
  file_size :: nat
  mime_type :: string
  notebooklm_document_id :: "string option"
  processing_status :: processing_state
  processing_error :: "string option"
  query_count :: nat
  last_queried_at :: "nat option"
  is_active :: bool

text \<open>The invariant of the specification's data model, in its words.\<close>

definition document_invariant :: "Document \<Rightarrow> bool" where
  "document_invariant d =
     (((processing_status d = Completed) =
        (\<exists>r. notebooklm_document_id d = Some r \<and> r \<noteq> [])) \<and>
      (processing_status d = Processing \<or> processing_status d = Failed \<longrightarrow>
         notebooklm_document_id d = None))"

datatype lifecycle_error = InvalidDocument | DocumentNotFound | DocumentForbidden | DocumentInvalidState

datatype ingestion_outcome = Ingested string | IngestionFailed string

record lifecycle =
  documents :: "Document list"
  audit :: "string list"

record intake_limits =
  max_size :: nat
  allowed_types :: "string list"

text \<open>
  Modelled from the spec: the single check at every mutation point that the design notes
  ask for. A document is written only if it satisfies the invariant.
\<close>

definition write_document :: "Document \<Rightarrow> string \<Rightarrow> lifecycle \<Rightarrow> lifecycle_error + lifecycle" where
  "write_document d entry st =
     (if \<not> document_invariant d then Inl DocumentInvalidState
      else Inr \<lparr>documents =
                 (if document_id d \<in> set (map document_id (documents st))
                  then map (\<lambda>x. if document_id x = document_id d then d else x) (documents st)
                  else documents st @ [d]),
               audit = audit st @ [entry]\<rparr>)"

text \<open>
  Modelled from the spec: \<open>intake(ownerId, fileMeta)\<close>, missing from the sources,
  checks the size and the type against the configured limits and stores a pending
  document with no reference.
\<close>

definition intake :: "intake_limits \<Rightarrow> nat \<Rightarrow> nat \<Rightarrow> string \<Rightarrow> lifecycle \<Rightarrow> lifecycle_error + lifecycle" where
  "intake limits ownerId bytes mime st =
     (if bytes > max_size limits \<or> mime \<notin> set (allowed_types limits) then Inl InvalidDocument
      else write_document
             \<lparr>document_id = Suc (foldr max (map document_id (documents st)) 0), owner_id = ownerId,
              file_size = bytes, mime_type = mime, notebooklm_document_id = None,
              processing_status = Pending, processing_error = None, query_count = 0,
              last_queried_at = None, is_active = True\<rparr>
             ''document.intake'' st)"

text \<open>
  Modelled from the spec: \<open>advance(documentId, outcome)\<close>, missing from the sources,
  moves a pending or processing document to \<open>completed\<close> with the reference or to
  \<open>failed\<close> with the error detail, and is a no-op on a document in a terminal
  state.
\<close>

definition advance :: "nat \<Rightarrow> ingestion_outcome \<Rightarrow> lifecycle \<Rightarrow> lifecycle_error + lifecycle" where
  "advance documentId outcome st =
     (case find (\<lambda>d. document_id d = documentId) (documents st) of
        None \<Rightarrow> Inl DocumentNotFound
      | Some d \<Rightarrow>
          if processing_status d = Completed \<or> processing_status d = Failed then Inr st
          else (case outcome of
                  Ingested reference \<Rightarrow>
                    write_document
                      (d\<lparr>processing_status := Completed, notebooklm_document_id := Some reference\<rparr>)
                      ''document.completed'' st
                | IngestionFailed detail \<Rightarrow>
                    write_document
                      (d\<lparr>processing_status := Failed, processing_error := Some detail\<rparr>)
                      ''document.failed'' st))"

text \<open>
  Modelled from the spec: \<open>recordQuery(documentId)\<close>, missing from the sources, counts a
  query on a completed document.
\<close>

definition recordQuery :: "nat \<Rightarrow> nat \<Rightarrow> lifecycle \<Rightarrow> lifecycle_error + lifecycle" where
  "recordQuery documentId now st =
     (case find (\<lambda>d. document_id d = documentId) (documents st) of
        None \<Rightarrow> Inl DocumentNotFound
      | Some d \<Rightarrow>
          if processing_status d \<noteq> Completed then Inl DocumentInvalidState
          else write_document (d\<lparr>query_count := Suc (query_count d), last_queried_at := Some now\<rparr>)
                 ''document.queried'' st)"

text \<open>
  Modelled from the spec: \<open>retire(documentId, ownerId)\<close>, missing from the sources,
  flags a document inactive for its owner or an administrator.
\<close>

definition retire :: "nat \<Rightarrow> nat \<Rightarrow> bool \<Rightarrow> lifecycle \<Rightarrow> lifecycle_error + lifecycle" where
  "retire documentId callerId isAdmin st =
     (case find (\<lambda>d. document_id d = documentId) (documents st) of
        None \<Rightarrow> Inl DocumentNotFound
      | Some d \<Rightarrow>
          if owner_id d \<noteq> callerId \<and> \<not> isAdmin then Inl DocumentForbidden
          else write_document (d\<lparr>is_active := False\<rparr>) ''document.retired'' st)"

text \<open>
  Modelled from the spec: the calls of the manager one after the other; a call that fails
  leaves the documents as they were.
\<close>

datatype lifecycle_call =
    Intake nat nat string
  | Advance nat ingestion_outcome
  | RecordQuery nat nat
  | Retire nat nat bool

fun manage :: "intake_limits \<Rightarrow> lifecycle \<Rightarrow> lifecycle_call \<Rightarrow> lifecycle_error + lifecycle" where
  "manage limits st (Intake ownerId bytes mime) = intake limits ownerId bytes mime st"
| "manage limits st (Advance documentId outcome) = advance documentId outcome st"
| "manage limits st (RecordQuery documentId now) = recordQuery documentId now st"
| "manage limits st (Retire documentId callerId isAdmin) = retire documentId callerId isAdmin st"

fun manage_all :: "intake_limits \<Rightarrow> lifecycle \<Rightarrow> lifecycle_call list \<Rightarrow> lifecycle" where
  "manage_all limits st [] = st"
| "manage_all limits st (c # cs) =
     (case manage limits st c of
        Inl e \<Rightarrow> manage_all limits st cs
      | Inr st1 \<Rightarrow> manage_all limits st1 cs)"

definition pdf_only :: intake_limits where
  "pdf_only = \<lparr>max_size = 10485760, allowed_types = [''application/pdf'']\<rparr>"

definition ingested_pdf :: Document where
  "ingested_pdf =
     \<lparr>document_id = 1, owner_id = 7, file_size = 2097152, mime_type = ''application/pdf'',
      notebooklm_document_id = Some ''nb-1'', processing_status = Completed,
      processing_error = None, query_count = 1, last_queried_at = Some 100, is_active = True\<rparr>"

section \<open>What each operation of the client changes\<close>

lemma send_fields:
  "sent (send c k w) = sent w @ [requestInterceptor w c]"
  "pending (send c k w) = (pending w)(length (sent w) \<mapsto> (requestInterceptor w c, k))"
  "authToken (send c k w) = authToken w"
  "hasWindow (send c k w) = hasWindow w"
  "localStorage (send c k w) = localStorage w"
  "href (send c k w) = href w"
  "store (send c k w) = store w"
  "completed (send c k w) = completed w"
  "calls (send c k w) = calls w"
  "tick (send c k w) = Suc (tick w)"
  "Date_now (send c k w) = Date_now w"
  "Math_random36 (send c k w) = Math_random36 w"
  by (simp_all add: send_def Let_def)

lemma requestInterceptor_fields:
  "url (requestInterceptor w c) = url c"
  "skipAuth (requestInterceptor w c) = skipAuth c"
  "skipErrorHandling (requestInterceptor w c) = skipErrorHandling c"
  "body (requestInterceptor w c) = body c"
  by (simp_all add: requestInterceptor_def Let_def)

lemma refresh_config_fields:
  "url (refresh_config rt) = ''/api/v1/auth/refresh''"
  "skipAuth (refresh_config rt)"
  "\<not> skipErrorHandling (refresh_config rt)"
  "headers (refresh_config rt) ''Authorization'' = None"
  by (simp_all add: refresh_config_def request_config_def)

lemma api_call_fields:
  "sent (api_call c w) = sent w @ [requestInterceptor w c]"
  "pending (api_call c w) =
     (pending w)(length (sent w) \<mapsto> (requestInterceptor w c, [ResponseData, Caller (calls w)]))"
  "authToken (api_call c w) = authToken w"
  "hasWindow (api_call c w) = hasWindow w"
  "localStorage (api_call c w) = localStorage w"
  "href (api_call c w) = href w"
  "store (api_call c w) = store w"
  "completed (api_call c w) = completed w"
  "calls (api_call c w) = Suc (calls w)"
  "tick (api_call c w) = Suc (tick w)"
  "Date_now (api_call c w) = Date_now w"
  "Math_random36 (api_call c w) = Math_random36 w"
  by (simp_all add: api_call_def send_def Let_def requestInterceptor_def generateCorrelationId_def)

lemma handleApiError_fields:
  "authToken (handleApiError f w) = authToken w"
  "hasWindow (handleApiError f w) = hasWindow w"
  "localStorage (handleApiError f w) = localStorage w"
  "href (handleApiError f w) = href w"
  "sent (handleApiError f w) = sent w"
  "pending (handleApiError f w) = pending w"
  "store (handleApiError f w) = store w"
  "completed (handleApiError f w) = completed w"
  "tick (handleApiError f w) = tick w"
  "Date_now (handleApiError f w) = Date_now w"
  "Math_random36 (handleApiError f w) = Math_random36 w"
  "calls (handleApiError f w) = calls w"
  by (cases f; simp add: handleApiError_def toast_error_def console_error_def Let_def)+

lemma clearAuthToken_fields:
  "authToken (clearAuthToken w) = None"
  "hasWindow (clearAuthToken w) = hasWindow w"
  "hasWindow w \<Longrightarrow> localStorage (clearAuthToken w) =
     (localStorage w)(''access_token'' := None, ''refresh_token'' := None)"
  "href (clearAuthToken w) = href w"
  "sent (clearAuthToken w) = sent w"
  "pending (clearAuthToken w) = pending w"
  "store (clearAuthToken w) = store w"
  "completed (clearAuthToken w) = completed w"
  "tick (clearAuthToken w) = tick w"
  "Date_now (clearAuthToken w) = Date_now w"
  "Math_random36 (clearAuthToken w) = Math_random36 w"
  "calls (clearAuthToken w) = calls w"
  by (simp_all add: clearAuthToken_def removeItem_def Let_def)

lemma saveAuthToken_fields:
  "authToken (saveAuthToken t w) = t"
  "hasWindow (saveAuthToken t w) = hasWindow w"
  "hasWindow w \<Longrightarrow> localStorage (saveAuthToken t w) =
     (localStorage w)(''access_token'' \<mapsto> (case t of None \<Rightarrow> ''undefined'' | Some x \<Rightarrow> x))"
  "href (saveAuthToken t w) = href w"
  "sent (saveAuthToken t w) = sent w"
  "pending (saveAuthToken t w) = pending w"
  "store (saveAuthToken t w) = store w"
  "completed (saveAuthToken t w) = completed w"
  "tick (saveAuthToken t w) = tick w"
  "Date_now (saveAuthToken t w) = Date_now w"
  "Math_random36 (saveAuthToken t w) = Math_random36 w"
  "calls (saveAuthToken t w) = calls w"
  by (simp_all add: saveAuthToken_def setItem_def Let_def)

lemma toast_error_fields:
  "authToken (toast_error m w) = authToken w"
  "hasWindow (toast_error m w) = hasWindow w"
  "localStorage (toast_error m w) = localStorage w"
  "href (toast_error m w) = href w"
  "sent (toast_error m w) = sent w"
  "pending (toast_error m w) = pending w"
  "store (toast_error m w) = store w"
  "completed (toast_error m w) = completed w"
  "tick (toast_error m w) = tick w"
  "Date_now (toast_error m w) = Date_now w"
  "Math_random36 (toast_error m w) = Math_random36 w"
  "calls (toast_error m w) = calls w"
  by (simp_all add: toast_error_def)

lemma setItem_fields:
  "authToken (setItem k v w) = authToken w"
  "hasWindow (setItem k v w) = hasWindow w"
  "localStorage (setItem k v w) =
     (localStorage w)(k \<mapsto> (case v of None \<Rightarrow> ''undefined'' | Some x \<Rightarrow> x))"
  "href (setItem k v w) = href w"
  "sent (setItem k v w) = sent w"
  "pending (setItem k v w) = pending w"
  "store (setItem k v w) = store w"
  "completed (setItem k v w) = completed w"
  "tick (setItem k v w) = tick w"
  "Date_now (setItem k v w) = Date_now w"
  "Math_random36 (setItem k v w) = Math_random36 w"
  "calls (setItem k v w) = calls w"
  by (simp_all add: setItem_def)

lemma login_catch_fields:
  "authToken (login_catch e w) = authToken w"
  "hasWindow (login_catch e w) = hasWindow w"
  "localStorage (login_catch e w) = localStorage w"
  "href (login_catch e w) = href w"
  "sent (login_catch e w) = sent w"
  "pending (login_catch e w) = pending w"
  "completed (login_catch e w) = completed w"
  "tick (login_catch e w) = tick w"
  "Date_now (login_catch e w) = Date_now w"
  "Math_random36 (login_catch e w) = Math_random36 w"
  "calls (login_catch e w) = calls w"
  by (simp_all add: login_catch_def Let_def)

lemmas client_fields =
  send_fields api_call_fields requestInterceptor_fields refresh_config_fields handleApiError_fields
  clearAuthToken_fields saveAuthToken_fields toast_error_fields setItem_fields login_catch_fields

lemma exec_append: "exec w (xs @ ys) = exec (exec w xs) ys"
  by (simp add: exec_def)

lemma exec_Cons: "exec w (e # es) = exec (step w e) es"
  by (simp add: exec_def)

lemma exec_Nil: "exec w [] = w"
  by (simp add: exec_def)


section \<open>The reply to a request, case by case\<close>

lemma reply_unauthorized:
  assumes "pending w rid = Some (config, k)" "\<not> skipAuth config" "status r = 401"
    and "hasWindow w" "localStorage w ''refresh_token'' = Some rt" "rt \<noteq> []"
  shows "reply rid (Failure (HttpError r)) w =
           send (refresh_config rt) (RefreshResume # InterceptorReturn # k)
                (w\<lparr>pending := (pending w)(rid := None)\<rparr>)"
  using assms by (simp add: reply_def handleTokenExpiration_def Let_def)

lemma reply_unauthorized_no_token:
  assumes "pending w rid = Some (config, k)" "\<not> skipAuth config" "status r = 401"
    and "hasWindow w" "\<not> truthy (localStorage w ''refresh_token'')"
  shows "reply rid (Failure (HttpError r)) w =
           run k (Fulfilled Undefined)
             ((clearAuthToken (w\<lparr>pending := (pending w)(rid := None)\<rparr>))\<lparr>href := ''/auth/login''\<rparr>)"
  using assms by (simp add: reply_def handleTokenExpiration_def Let_def clearAuthToken_fields)

lemma reply_refresh_success:
  assumes "pending w rid = Some (config, RefreshResume # InterceptorReturn # k)" "hasWindow w"
  shows "reply rid (Success resp) w =
           run k (Fulfilled Undefined)
             (setItem ''refresh_token'' (data resp ''refresh_token'')
               (saveAuthToken (data resp ''access_token'') (w\<lparr>pending := (pending w)(rid := None)\<rparr>)))"
  using assms by (simp add: reply_def Let_def saveAuthToken_fields)


lemma run_plain_call_undefined:
  "run [ResponseData, Caller c] (Fulfilled Undefined) w =
     w\<lparr>completed := completed w @ [(c, Rejected TypeError)]\<rparr>"
  by simp

lemma expiration_catch_inert:
  assumes "expiration_catch w = (w1, r1)"
  shows "inert r1" and "sent w1 = sent w"
  using assms
  by (auto simp: expiration_catch_def clearAuthToken_def toast_error_def removeItem_def Let_def
      split: if_splits)

lemma run_inert_sent: "inert r \<Longrightarrow> sent (run k r w) = sent w"
proof (induction k arbitrary: r w)
  case Nil
  then show ?case by simp
next
  case (Cons f k)
  from Cons.prems consider (u) "r = Fulfilled Undefined" | (e) e where "r = Rejected e"
    by (cases r rule: inert.cases) auto
  then show ?case
  proof cases
    case u
    show ?thesis
    proof (cases f)
      case ResponseData
      then show ?thesis using u Cons.IH [of "Rejected TypeError" w] by simp
    next
      case InterceptorReturn
      then show ?thesis using u Cons.IH [of "Fulfilled Undefined" w] by simp
    next
      case RefreshResume
      obtain w1 r1 where c: "expiration_catch w = (w1, r1)" by (cases "expiration_catch w")
      then show ?thesis
        using u RefreshResume expiration_catch_inert [OF c] Cons.IH [of r1 w1] by simp
    next
      case LoginToken
      then show ?thesis using u Cons.IH [of "Rejected TypeError" "login_catch TypeError w"]
        by (simp add: login_catch_fields)
    next
      case (LoginUser t)
      then show ?thesis using u Cons.IH [of "Fulfilled Undefined"]
        by (simp add: setItem_def Let_def)
    next
      case (Caller c)
      then show ?thesis using u Cons.IH [of r] by simp
    qed
  next
    case e
    show ?thesis
    proof (cases f)
      case ResponseData
      then show ?thesis using e Cons.IH [of "Rejected e" w] by simp
    next
      case InterceptorReturn
      then show ?thesis using e Cons.IH [of "Rejected e" w] by simp
    next
      case RefreshResume
      obtain w1 r1 where c: "expiration_catch w = (w1, r1)" by (cases "expiration_catch w")
      then show ?thesis
        using e RefreshResume expiration_catch_inert [OF c] Cons.IH [of r1 w1] by simp
    next
      case LoginToken
      then show ?thesis using e Cons.IH [of "Rejected e" "login_catch e w"]
        by (simp add: login_catch_fields)
    next
      case (LoginUser t)
      then show ?thesis using e Cons.IH [of "Rejected e" "login_catch e w"]
        by (simp add: login_catch_fields)
    next
      case (Caller c)
      then show ?thesis using e Cons.IH [of r] by simp
    qed
  qed
qed

lemma reply_opted_out_sends_nothing:
  assumes "pending w rid = Some (config, k)" "skipAuth config"
  shows "sent (reply rid (Failure f) w) = sent w"
  using assms by (simp add: reply_def Let_def run_inert_sent handleApiError_fields)

section \<open>Several requests rejected at once\<close>

lemma refresh_calls_send:
  "refresh_calls (send c k w) =
     refresh_calls w + (if url c = ''/api/v1/auth/refresh'' then 1 else 0)"
  by (simp add: refresh_calls_def send_fields requestInterceptor_fields)

lemma replies_unauthorized:
  assumes "hasWindow w" "localStorage w ''refresh_token'' = Some rt" "rt \<noteq> []" "status r = 401"
    and "distinct rids"
    and "\<forall>rid\<in>set rids. rid < length (sent w) \<and>
           (\<exists>config k. pending w rid = Some (config, k) \<and> \<not> skipAuth config)"
  shows "refresh_calls (exec w (map (\<lambda>rid. Reply rid (Failure (HttpError r))) rids)) =
           refresh_calls w + length rids"
  using assms
proof (induction rids arbitrary: w)
  case Nil
  then show ?case by (simp add: exec_def)
next
  case (Cons rid rids)
  from Cons.prems obtain config k where p: "pending w rid = Some (config, k)" "\<not> skipAuth config"
    by auto
  define w1 where "w1 = reply rid (Failure (HttpError r)) w"
  have w1: "w1 = send (refresh_config rt) (RefreshResume # InterceptorReturn # k)
                   (w\<lparr>pending := (pending w)(rid := None)\<rparr>)"
    unfolding w1_def using p Cons.prems by (intro reply_unauthorized) auto
  have a: "hasWindow w1" "localStorage w1 ''refresh_token'' = Some rt"
    using Cons.prems by (simp_all add: w1 send_fields)
  have b: "\<forall>x\<in>set rids. x < length (sent w1) \<and>
             (\<exists>config k. pending w1 x = Some (config, k) \<and> \<not> skipAuth config)"
  proof
    fix x assume x: "x \<in> set rids"
    with Cons.prems have "x \<noteq> rid" "x < length (sent w)"
      "\<exists>config k. pending w x = Some (config, k) \<and> \<not> skipAuth config" by auto
    then show "x < length (sent w1) \<and>
                 (\<exists>config k. pending w1 x = Some (config, k) \<and> \<not> skipAuth config)"
      by (simp add: w1 send_fields)
  qed
  have "refresh_calls (exec w1 (map (\<lambda>rid. Reply rid (Failure (HttpError r))) rids)) =
          refresh_calls w1 + length rids"
    using Cons.prems a b by (intro Cons.IH) auto
  moreover have "refresh_calls w1 = Suc (refresh_calls w)"
    by (simp add: w1 refresh_calls_send refresh_config_fields) (simp add: refresh_calls_def)
  ultimately show ?case by (simp add: exec_def w1_def)
qed

lemma calls_only:
  "hasWindow (exec w (map Call cs)) = hasWindow w \<and>
   authToken (exec w (map Call cs)) = authToken w \<and>
   localStorage (exec w (map Call cs)) = localStorage w \<and>
   length (sent (exec w (map Call cs))) = length (sent w) + length cs \<and>
   refresh_calls (exec w (map Call cs)) =
     refresh_calls w + length (filter (\<lambda>c. url c = ''/api/v1/auth/refresh'') cs) \<and>
   (\<forall>i < length (sent w). pending (exec w (map Call cs)) i = pending w i) \<and>
   (\<forall>i < length cs. \<exists>c k. pending (exec w (map Call cs)) (length (sent w) + i) = Some (c, k) \<and>
                              skipAuth c = skipAuth (cs ! i))"
proof (induction cs arbitrary: w)
  case Nil
  then show ?case by (simp add: exec_def)
next
  case (Cons c cs)
  let ?w1 = "api_call c w"
  note ih = Cons.IH [of ?w1]
  have e: "exec w (map Call (c # cs)) = exec ?w1 (map Call cs)" by (simp add: exec_Cons)
  have p0: "pending (exec ?w1 (map Call cs)) (length (sent w)) = pending ?w1 (length (sent w))"
    using ih by (simp add: api_call_fields)
  have "\<exists>c' k. pending (exec ?w1 (map Call cs)) (length (sent w) + i) = Some (c', k) \<and>
                 skipAuth c' = skipAuth ((c # cs) ! i)"
    if "i < length (c # cs)" for i
  proof (cases i)
    case 0
    then show ?thesis using p0 by (simp add: api_call_fields requestInterceptor_fields)
  next
    case (Suc j)
    then have "j < length cs" using that by simp
    with ih obtain c' k where
      "pending (exec ?w1 (map Call cs)) (length (sent ?w1) + j) = Some (c', k) \<and>
       skipAuth c' = skipAuth (cs ! j)"
      by blast
    then show ?thesis using Suc by (simp add: api_call_fields)
  qed
  moreover have "\<forall>i < length (sent w). pending (exec ?w1 (map Call cs)) i = pending w i"
    using ih by (simp add: api_call_fields)
  moreover have "refresh_calls ?w1 =
                   refresh_calls w + (if url c = ''/api/v1/auth/refresh'' then 1 else 0)"
    by (simp add: refresh_calls_def api_call_fields requestInterceptor_fields)
  ultimately show ?case using ih unfolding e by (simp add: api_call_fields)
qed

lemma unauthorized_refresh_count:
  assumes "hasWindow w" "localStorage w ''refresh_token'' = Some rt" "rt \<noteq> []" "status r = 401"
    and "\<forall>c\<in>set configs. \<not> skipAuth c \<and> url c \<noteq> ''/api/v1/auth/refresh''"
  shows "refresh_calls (exec w (map Call configs @
            map (\<lambda>i. Reply (length (sent w) + i) (Failure (HttpError r))) [0..<length configs])) =
         refresh_calls w + length configs"
proof -
  let ?w1 = "exec w (map Call configs)"
  let ?rids = "map (\<lambda>i. length (sent w) + i) [0..<length configs]"
  note c = calls_only [of w configs]
  have f: "filter (\<lambda>c. url c = ''/api/v1/auth/refresh'') configs = []"
    using assms(5) by (auto simp: filter_empty_conv)
  have d: "distinct ?rids" by (simp add: distinct_map inj_on_def)
  have p: "\<forall>rid\<in>set ?rids. rid < length (sent ?w1) \<and>
             (\<exists>config k. pending ?w1 rid = Some (config, k) \<and> \<not> skipAuth config)"
  proof
    fix rid assume "rid \<in> set ?rids"
    then obtain i where "i \<in> set [0..<length configs]" "rid = length (sent w) + i"
      unfolding set_map by blast
    then have i: "i < length configs" "rid = length (sent w) + i" by simp_all
    with c obtain c' k where "pending ?w1 rid = Some (c', k)" "skipAuth c' = skipAuth (configs ! i)"
      by blast
    moreover have "\<not> skipAuth (configs ! i)" using assms(5) i by simp
    ultimately show "rid < length (sent ?w1) \<and>
                       (\<exists>config k. pending ?w1 rid = Some (config, k) \<and> \<not> skipAuth config)"
      using c i by auto
  qed
  have "refresh_calls (exec ?w1 (map (\<lambda>rid. Reply rid (Failure (HttpError r))) ?rids)) =
          refresh_calls ?w1 + length ?rids"
    using assms c d p by (intro replies_unauthorized) auto
  then show ?thesis using c f by (simp add: exec_append comp_def)
qed

lemma browser_session_fields:
  "hasWindow browser_session"
  "authToken browser_session = Some ''a0''"
  "localStorage browser_session ''refresh_token'' = Some ''r0''"
  "sent browser_session = []"
  "refresh_calls browser_session = 0"
  "calls browser_session = 0"
  "completed browser_session = []"
  "pending browser_session = Map.empty"
  by (simp_all add: browser_session_def new_world_def loadAuthToken_def refresh_calls_def)

section \<open>A request and the replies to it\<close>

lemma call_then_unauthorized:
  assumes "hasWindow w" "localStorage w ''refresh_token'' = Some rt" "rt \<noteq> []"
    and "\<not> skipAuth config" "status r = 401"
  shows "exec w [Call config, Reply (length (sent w)) (Failure (HttpError r))] =
         send (refresh_config rt) [RefreshResume, InterceptorReturn, ResponseData, Caller (calls w)]
           ((api_call config w)\<lparr>pending := (pending (api_call config w))(length (sent w) := None)\<rparr>)"
proof -
  have "pending (api_call config w) (length (sent w)) =
          Some (requestInterceptor w config, [ResponseData, Caller (calls w)])"
    by (simp add: api_call_fields)
  then have "reply (length (sent w)) (Failure (HttpError r)) (api_call config w) =
      send (refresh_config rt) (RefreshResume # InterceptorReturn # [ResponseData, Caller (calls w)])
        ((api_call config w)\<lparr>pending := (pending (api_call config w))(length (sent w) := None)\<rparr>)"
    using assms by (intro reply_unauthorized [where config = "requestInterceptor w config"])
      (simp_all add: client_fields)
  then show ?thesis by (simp add: exec_def)
qed

lemma call_then_unauthorized_fields:
  assumes "hasWindow w" "localStorage w ''refresh_token'' = Some rt" "rt \<noteq> []"
    and "\<not> skipAuth config" "status r = 401"
    and "w2 = exec w [Call config, Reply (length (sent w)) (Failure (HttpError r))]"
  shows "\<exists>c. pending w2 (Suc (length (sent w))) =
           Some (c, [RefreshResume, InterceptorReturn, ResponseData, Caller (calls w)]) \<and>
           skipAuth c \<and> \<not> skipErrorHandling c"
    and "hasWindow w2" and "authToken w2 = authToken w" and "localStorage w2 = localStorage w"
    and "href w2 = href w" and "completed w2 = completed w"
    and "map url (sent w2) = map url (sent w) @ [url config, ''/api/v1/auth/refresh'']"
  using assms(1,6) unfolding call_then_unauthorized [OF assms(1-5)]
  by (simp_all add: client_fields)

lemma refresh_succeeds:
  assumes "hasWindow w" "localStorage w ''refresh_token'' = Some rt" "rt \<noteq> []"
    and "\<not> skipAuth config" "status r = 401"
    and "w' = exec w [Call config, Reply (length (sent w)) (Failure (HttpError r)),
                      Reply (Suc (length (sent w))) (Success resp)]"
  shows "authToken w' = data resp ''access_token''"
    and "localStorage w' ''access_token'' =
           Some (case data resp ''access_token'' of None \<Rightarrow> ''undefined'' | Some x \<Rightarrow> x)"
    and "localStorage w' ''refresh_token'' =
           Some (case data resp ''refresh_token'' of None \<Rightarrow> ''undefined'' | Some x \<Rightarrow> x)"
    and "map url (sent w') = map url (sent w) @ [url config, ''/api/v1/auth/refresh'']"
    and "completed w' = completed w @ [(calls w, Rejected TypeError)]"
proof -
  define w2 where "w2 = exec w [Call config, Reply (length (sent w)) (Failure (HttpError r))]"
  note f = call_then_unauthorized_fields [OF assms(1-5) w2_def]
  from f(1) obtain c where p: "pending w2 (Suc (length (sent w))) =
       Some (c, RefreshResume # InterceptorReturn # [ResponseData, Caller (calls w)])" by auto
  have "w' = reply (Suc (length (sent w))) (Success resp) w2"
    unfolding assms(6) w2_def by (simp add: exec_def)
  then have w': "w' = run [ResponseData, Caller (calls w)] (Fulfilled Undefined)
             (setItem ''refresh_token'' (data resp ''refresh_token'')
               (saveAuthToken (data resp ''access_token'')
                  (w2\<lparr>pending := (pending w2)(Suc (length (sent w)) := None)\<rparr>)))"
    using reply_refresh_success [OF p f(2)] by simp
  show "authToken w' = data resp ''access_token''"
    and "localStorage w' ''access_token'' =
           Some (case data resp ''access_token'' of None \<Rightarrow> ''undefined'' | Some x \<Rightarrow> x)"
    and "localStorage w' ''refresh_token'' =
           Some (case data resp ''refresh_token'' of None \<Rightarrow> ''undefined'' | Some x \<Rightarrow> x)"
    and "map url (sent w') = map url (sent w) @ [url config, ''/api/v1/auth/refresh'']"
    and "completed w' = completed w @ [(calls w, Rejected TypeError)]"
    using f(2,6,7) by (simp_all add: w' client_fields)
qed




section \<open>After the session was cleared\<close>







section \<open>Correlation ids and the login\<close>

lemma stamped_cong:
  assumes "sent w' = sent w" "tick w' = tick w" "Date_now w' = Date_now w"
    "Math_random36 w' = Math_random36 w"
  shows "stamped clock rnd w' = stamped clock rnd w"
  using assms by (simp add: stamped_def)

lemma stamped_send: "stamped clock rnd w \<Longrightarrow> stamped clock rnd (send c k w)"
  by (auto simp: stamped_def send_fields nth_append requestInterceptor_def
      generateCorrelationId_def Let_def less_Suc_eq)

lemma stamped_primitives:
  "stamped clock rnd (clearAuthToken w) = stamped clock rnd w"
  "stamped clock rnd (saveAuthToken t w) = stamped clock rnd w"
  "stamped clock rnd (setAuthToken t w) = stamped clock rnd w"
  "stamped clock rnd (setItem key v w) = stamped clock rnd w"
  "stamped clock rnd (toast_error m w) = stamped clock rnd w"
  "stamped clock rnd (handleApiError f w) = stamped clock rnd w"
  "stamped clock rnd (login_catch e w) = stamped clock rnd w"
  "stamped clock rnd (w\<lparr>completed := x1\<rparr>) = stamped clock rnd w"
  "stamped clock rnd (w\<lparr>pending := x2\<rparr>) = stamped clock rnd w"
  "stamped clock rnd (w\<lparr>href := x3\<rparr>) = stamped clock rnd w"
  "stamped clock rnd (w\<lparr>store := x4\<rparr>) = stamped clock rnd w"
  "stamped clock rnd (w\<lparr>calls := x5\<rparr>) = stamped clock rnd w"
  by (rule stamped_cong; simp add: client_fields setAuthToken_def)+

lemma stamped_expiration_catch:
  "expiration_catch w = (w1, r1) \<Longrightarrow> stamped clock rnd w1 = stamped clock rnd w"
  by (auto simp: expiration_catch_def Let_def stamped_primitives split: if_splits)

lemma stamped_run: "stamped clock rnd w \<Longrightarrow> stamped clock rnd (run k r w)"
proof (induction k arbitrary: r w)
  case Nil
  then show ?case by simp
next
  case (Cons f k)
  note ih = Cons.IH and st = Cons.prems
  show ?case
  proof (cases f)
    case ResponseData
    then show ?thesis using ih [OF st]
      by (cases r; simp split: js_value.splits)
  next
    case InterceptorReturn
    then show ?thesis using ih [OF st] by (cases r; simp)
  next
    case RefreshResume
    obtain w1 r1 where c: "expiration_catch w = (w1, r1)" by (cases "expiration_catch w")
    have 1: "stamped clock rnd (run k r1 w1)" using ih st stamped_expiration_catch [OF c] by simp
    have 2: "stamped clock rnd (run k (Fulfilled Undefined)
               (if hasWindow (saveAuthToken t w)
                then setItem ''refresh_token'' t' (saveAuthToken t w) else saveAuthToken t w))" for t t'
      using st by (intro ih) (simp add: stamped_primitives)
    show ?thesis using RefreshResume c 1 2
      by (cases r; simp split: js_value.splits add: Let_def)
  next
    case LoginToken
    have 1: "stamped clock rnd (run k (Rejected e) (login_catch e' w))" for e e'
      using st by (intro ih) (simp add: stamped_primitives)
    have 2: "stamped clock rnd (send c k' (setAuthToken t w))" for c k' t
      using st by (intro stamped_send) (simp add: stamped_primitives)
    show ?thesis using LoginToken 1 2
      by (cases r; simp split: js_value.splits)
  next
    case (LoginUser t)
    have 1: "stamped clock rnd (run k (Rejected e) (login_catch e' w))" for e e'
      using st by (intro ih) (simp add: stamped_primitives)
    have 2: "stamped clock rnd (run k (Fulfilled Undefined)
               ((if hasWindow w then setItem ''refresh_token'' t' w else w)\<lparr>store := x\<rparr>))" for t' x
      using st by (intro ih) (simp add: stamped_primitives)
    show ?thesis using LoginUser 1 2
      by (cases r; simp add: Let_def)
  next
    case (Caller c)
    then show ?thesis using ih [of "w\<lparr>completed := completed w @ [(c, r)]\<rparr>" r] st
      by (simp add: stamped_primitives)
  qed
qed

lemma stamped_handleTokenExpiration: "stamped clock rnd w \<Longrightarrow> stamped clock rnd (handleTokenExpiration k w)"
proof -
  assume st: "stamped clock rnd w"
  obtain w2 r2 where c: "expiration_catch (clearAuthToken w) = (w2, r2)"
    by (cases "expiration_catch (clearAuthToken w)")
  have 1: "stamped clock rnd (run k r2 w2)"
    using st stamped_expiration_catch [OF c] by (intro stamped_run) (simp add: stamped_primitives)
  have 2: "stamped clock rnd (run k (Fulfilled Undefined) ((clearAuthToken w)\<lparr>href := x\<rparr>))" for x
    using st by (intro stamped_run) (simp add: stamped_primitives)
  have 3: "stamped clock rnd (send c k' w)" for c k' using st by (rule stamped_send)
  show ?thesis using 1 2 3 c by (simp add: handleTokenExpiration_def Let_def)
qed

lemma stamped_reply: "stamped clock rnd w \<Longrightarrow> stamped clock rnd (reply rid out w)"
proof -
  assume st: "stamped clock rnd w"
  have 0: "stamped clock rnd (w\<lparr>pending := x\<rparr>)" for x using st by (simp add: stamped_primitives)
  have 1: "stamped clock rnd (run k r (w\<lparr>pending := x\<rparr>))" for k r x
    using 0 by (rule stamped_run)
  have 2: "stamped clock rnd (run k r (handleApiError f (w\<lparr>pending := x\<rparr>)))" for k r f x
    using 0 by (intro stamped_run) (simp add: stamped_primitives)
  have 3: "stamped clock rnd (handleTokenExpiration k (w\<lparr>pending := x\<rparr>))" for k x
    using 0 by (rule stamped_handleTokenExpiration)
  show ?thesis using st 1 2 3
    by (simp add: reply_def Let_def split: option.splits prod.splits net_outcome.splits)
qed

lemma stamped_step: "stamped clock rnd w \<Longrightarrow> stamped clock rnd (step w ev)"
  by (cases ev) (simp_all add: api_call_def login_def Let_def stamped_send stamped_primitives stamped_reply)

lemma stamped_exec: "stamped clock rnd w \<Longrightarrow> stamped clock rnd (exec w evs)"
  by (induction evs arbitrary: w) (simp_all add: exec_Nil exec_Cons stamped_step)

lemma stamped_new_world: "stamped clock rnd (new_world win ls clock rnd)"
  by (simp add: stamped_def new_world_def loadAuthToken_def)

lemma login_fields:
  "sent (login u p w) = sent w @ [requestInterceptor w (login_config u p)]"
  "pending (login u p w) =
     (pending w)(length (sent w) \<mapsto>
        (requestInterceptor w (login_config u p), [ResponseData, LoginToken, Caller (calls w)]))"
  "authToken (login u p w) = authToken w"
  "hasWindow (login u p w) = hasWindow w"
  "localStorage (login u p w) = localStorage w"
  "href (login u p w) = href w"
  "completed (login u p w) = completed w"
  "calls (login u p w) = Suc (calls w)"
  by (simp_all add: login_def send_def Let_def requestInterceptor_def generateCorrelationId_def)

lemma login_config_fields:
  "\<not> skipAuth (login_config u p)"
  "\<not> skipErrorHandling (login_config u p)"
  "url (login_config u p) = ''/api/v1/auth/login''"
  by (simp_all add: login_config_def request_config_def)

lemma reply_failure_sends_nothing:
  assumes "failure_status f \<noteq> Some 401"
  shows "sent (reply rid (Failure f) w) = sent w"
  using assms
  by (simp add: reply_def Let_def run_inert_sent handleApiError_fields split: option.splits)

lemma reply_failure_passed_on:
  assumes "pending w rid = Some (config, k)" "failure_status f \<noteq> Some 401"
    and "\<not> skipErrorHandling config"
  shows "reply rid (Failure f) w =
           run k (Rejected (AxiosError config f))
             (handleApiError f (w\<lparr>pending := (pending w)(rid := None)\<rparr>))"
  using assms by (simp add: reply_def Let_def)

lemma reply_success:
  assumes "pending w rid = Some (config, k)"
  shows "reply rid (Success resp) w =
           run k (Fulfilled (Response resp)) (w\<lparr>pending := (pending w)(rid := None)\<rparr>)"
  using assms by (simp add: reply_def Let_def)

lemma login_catch_store:
  "store (login_catch e w) =
     \<lparr>user = None, token = None, isAuthenticated = False, isLoading = False,
      error = Some (if truthy (response_detail e) then the (response_detail e) else ''Login failed'')\<rparr>"
  by (simp add: login_catch_def Let_def)

lemma login_rejected:
  "run [LoginToken, Caller c] (Rejected e) w =
     (login_catch e w)\<lparr>completed := completed w @ [(c, Rejected e)]\<rparr>"
  "run [LoginUser t, Caller c] (Rejected e) w =
     (login_catch e w)\<lparr>completed := completed w @ [(c, Rejected e)]\<rparr>"
  "run [ResponseData, LoginToken, Caller c] (Rejected e) w =
     (login_catch e w)\<lparr>completed := completed w @ [(c, Rejected e)]\<rparr>"
  "run [ResponseData, LoginUser t, Caller c] (Rejected e) w =
     (login_catch e w)\<lparr>completed := completed w @ [(c, Rejected e)]\<rparr>"
  "run [ResponseData, LoginToken, Caller c] (Fulfilled Undefined) w =
     (login_catch TypeError w)\<lparr>completed := completed w @ [(c, Rejected TypeError)]\<rparr>"
  by (simp_all add: login_catch_fields)

lemma login_exchange_fails:
  assumes "failure_status f \<noteq> Some 401"
    and "w' = exec w [Login u p, Reply (length (sent w)) (Failure f)]"
  shows "store w' = store (login_catch (AxiosError config f) w)"
    and "\<exists>c. completed w' = completed w @ [(calls w, Rejected (AxiosError c f))]"
proof -
  let ?c = "requestInterceptor w (login_config u p)"
  let ?w1 = "login u p w"
  have p: "pending ?w1 (length (sent w)) = Some (?c, [ResponseData, LoginToken, Caller (calls w)])"
    by (simp add: login_fields)
  have "\<not> skipErrorHandling ?c" by (simp add: requestInterceptor_fields login_config_fields)
  from reply_failure_passed_on [OF p assms(1) this]
  have w': "w' = (login_catch (AxiosError ?c f)
                    (handleApiError f (?w1\<lparr>pending := (pending ?w1)(length (sent w) := None)\<rparr>)))
                 \<lparr>completed := completed w @ [(calls w, Rejected (AxiosError ?c f))]\<rparr>"
    unfolding assms(2) by (simp add: exec_def login_rejected client_fields login_fields)
  show "store w' = store (login_catch (AxiosError config f) w)"
    unfolding w' by (simp add: login_catch_store)
  show "\<exists>c. completed w' = completed w @ [(calls w, Rejected (AxiosError c f))]"
    unfolding w' by simp
qed

lemma login_user_info_fails:
  assumes "failure_status f \<noteq> Some 401"
    and "w' = exec w [Login u p, Reply (length (sent w)) (Success resp),
                      Reply (Suc (length (sent w))) (Failure f)]"
  shows "store w' = store (login_catch (AxiosError config f) w)"
    and "\<exists>c. completed w' = completed w @ [(calls w, Rejected (AxiosError c f))]"
proof -
  let ?c = "requestInterceptor w (login_config u p)"
  let ?w1 = "login u p w"
  let ?w1' = "?w1\<lparr>pending := (pending ?w1)(length (sent w) := None)\<rparr>"
  let ?me = "request_config ''get'' ''/api/v1/auth/me'' []"
  let ?w2 = "send ?me [ResponseData, LoginUser (data resp), Caller (calls w)]
               (setAuthToken (data resp ''access_token'') ?w1')"
  let ?c2 = "requestInterceptor (setAuthToken (data resp ''access_token'') ?w1') ?me"
  have p: "pending ?w1 (length (sent w)) = Some (?c, [ResponseData, LoginToken, Caller (calls w)])"
    by (simp add: login_fields)
  have s1: "reply (length (sent w)) (Success resp) ?w1 = ?w2"
    unfolding reply_success [OF p] by simp
  have p2: "pending ?w2 (Suc (length (sent w))) =
              Some (?c2, [ResponseData, LoginUser (data resp), Caller (calls w)])"
    by (simp add: client_fields login_fields setAuthToken_def)
  have "\<not> skipErrorHandling ?c2" by (simp add: requestInterceptor_fields request_config_def)
  from reply_failure_passed_on [OF p2 assms(1) this]
  have w': "w' = (login_catch (AxiosError ?c2 f)
                    (handleApiError f (?w2\<lparr>pending := (pending ?w2)(Suc (length (sent w)) := None)\<rparr>)))
                 \<lparr>completed := completed w @ [(calls w, Rejected (AxiosError ?c2 f))]\<rparr>"
    unfolding assms(2) by (simp add: exec_def s1 login_rejected client_fields login_fields setAuthToken_def)
  show "store w' = store (login_catch (AxiosError config f) w)"
    unfolding w' by (simp add: login_catch_store)
  show "\<exists>c. completed w' = completed w @ [(calls w, Rejected (AxiosError c f))]"
    unfolding w' by simp
qed

lemma visitor_fields:
  "hasWindow visitor"
  "authToken visitor = None"
  "localStorage visitor = Map.empty"
  "sent visitor = []"
  "calls visitor = 0"
  "completed visitor = []"
  "pending visitor = Map.empty"
  by (simp_all add: visitor_def new_world_def loadAuthToken_def)

lemma login_unauthorized_no_token:
  assumes "hasWindow w" "\<not> truthy (localStorage w ''refresh_token'')" "status r = 401"
    and "w' = exec w [Login u p, Reply (length (sent w)) (Failure (HttpError r))]"
  shows "store w' = store (login_catch TypeError w)"
    and "completed w' = completed w @ [(calls w, Rejected TypeError)]"
proof -
  let ?c = "requestInterceptor w (login_config u p)"
  let ?w1 = "login u p w"
  have p: "pending ?w1 (length (sent w)) = Some (?c, [ResponseData, LoginToken, Caller (calls w)])"
    by (simp add: login_fields)
  have "reply (length (sent w)) (Failure (HttpError r)) ?w1 =
          run [ResponseData, LoginToken, Caller (calls w)] (Fulfilled Undefined)
            ((clearAuthToken (?w1\<lparr>pending := (pending ?w1)(length (sent w) := None)\<rparr>))
             \<lparr>href := ''/auth/login''\<rparr>)"
    using assms(1-3)
    by (intro reply_unauthorized_no_token [OF p])
      (simp_all add: requestInterceptor_fields login_config_fields login_fields)
  then have w': "w' = (login_catch TypeError
            ((clearAuthToken (?w1\<lparr>pending := (pending ?w1)(length (sent w) := None)\<rparr>))
             \<lparr>href := ''/auth/login''\<rparr>))
          \<lparr>completed := completed w @ [(calls w, Rejected TypeError)]\<rparr>"
    unfolding assms(4) by (simp add: exec_def login_rejected client_fields login_fields)
  show "store w' = store (login_catch TypeError w)"
    unfolding w' by (simp add: login_catch_store)
  show "completed w' = completed w @ [(calls w, Rejected TypeError)]"
    unfolding w' by simp
qed

section \<open>When two correlation ids are equal\<close>

lemma digit_char_inj:
  assumes "a < 10" "b < 10" "digit_char a = digit_char b"
  shows "a = b"
proof -
  have "distinct ''0123456789''" by simp
  moreover have "a < length ''0123456789''" "b < length ''0123456789''" using assms by simp_all
  ultimately show ?thesis using assms(3) unfolding digit_char_def
    by (simp only: nth_eq_iff_index_eq)
qed

lemma digit_char_not_dash: "n < 10 \<Longrightarrow> digit_char n \<noteq> CHR ''-''"
proof -
  assume "n < 10"
  then have "''0123456789'' ! n \<in> set ''0123456789''" by (intro nth_mem) simp
  then show ?thesis unfolding digit_char_def by auto
qed

lemma string_of_nat_no_dash: "CHR ''-'' \<notin> set (string_of_nat n)"
proof (induction n rule: string_of_nat.induct)
  case (1 n)
  show ?case
  proof (cases "n < 10")
    case True
    then show ?thesis using digit_char_not_dash [of n] by (simp add: string_of_nat.simps [of n])
  next
    case False
    then show ?thesis using 1 digit_char_not_dash [of "n mod 10"]
      by (simp add: string_of_nat.simps [of n])
  qed
qed

lemma string_of_nat_nonempty: "string_of_nat n \<noteq> []"
  by (simp add: string_of_nat.simps [of n])

lemma string_of_nat_inj: "string_of_nat a = string_of_nat b \<Longrightarrow> a = b"
proof (induction a arbitrary: b rule: string_of_nat.induct)
  case (1 a)
  show ?case
  proof (cases "a < 10")
    case a: True
    show ?thesis
    proof (cases "b < 10")
      case True
      with a "1.prems" show ?thesis
        by (simp add: string_of_nat.simps [of a] string_of_nat.simps [of b] digit_char_inj)
    next
      case False
      with a "1.prems" string_of_nat_nonempty [of "b div 10"] show ?thesis
        by (simp add: string_of_nat.simps [of a] string_of_nat.simps [of b] Cons_eq_append_conv)
    qed
  next
    case a: False
    show ?thesis
    proof (cases "b < 10")
      case True
      with a "1.prems" string_of_nat_nonempty [of "a div 10"] show ?thesis
        by (simp add: string_of_nat.simps [of a] string_of_nat.simps [of b] append_eq_Cons_conv)
    next
      case False
      with a "1.prems" have "string_of_nat (a div 10) = string_of_nat (b div 10)"
        and d: "digit_char (a mod 10) = digit_char (b mod 10)"
        by (simp_all add: string_of_nat.simps [of a] string_of_nat.simps [of b])
      then have "a div 10 = b div 10" using "1.IH" a by blast
      moreover have "a mod 10 = b mod 10" using d by (intro digit_char_inj) simp_all
      ultimately show ?thesis by (metis div_mult_mod_eq)
    qed
  qed
qed

lemma split_at_first:
  assumes "x \<notin> set xs" "x \<notin> set xs'" "xs @ x # ys = xs' @ x # ys'"
  shows "xs = xs' \<and> ys = ys'"
proof -
  have "takeWhile (\<lambda>c. c \<noteq> x) (zs @ x # ws) = zs" if "x \<notin> set zs" for zs ws
    using that by (induction zs) auto
  from this [OF assms(1), of ys] this [OF assms(2), of ys'] assms(3)
  have "xs = xs'" by simp
  with assms(3) show ?thesis by simp
qed

lemma correlation_id_eq_iff:
  "(string_of_nat a @ ''-'' @ r1 = string_of_nat b @ ''-'' @ r2) = (a = b \<and> r1 = r2)"
  using split_at_first [OF string_of_nat_no_dash [of a] string_of_nat_no_dash [of b], of r1 r2]
    string_of_nat_inj [of a b]
  by auto

section \<open>Claims about the session token handling\<close>

text \<open>
  C1 (as amended). The claim asks for a single refresh call however many requests fail
  with an authentication error at once. The response interceptor has no such
  deduplication: \<open>handleTokenExpiration\<close> is entered once for every rejected request
  and each entry posts its own refresh call. When \<open>N\<close> requests that did not opt out
  are each answered 401 before any refresh call has settled, in a browser that holds a
  refresh token, exactly \<open>N\<close> refresh calls go out, one per rejected request.
\<close>

theorem refresh_call_per_unauthorized_request:
  assumes "hasWindow w" "localStorage w ''refresh_token'' = Some rt" "rt \<noteq> []" "status r = 401"
    and "\<forall>c\<in>set configs. \<not> skipAuth c \<and> url c \<noteq> ''/api/v1/auth/refresh''"
  shows "refresh_calls (exec w (map Call configs @
            map (\<lambda>i. Reply (length (sent w) + i) (Failure (HttpError r))) [0..<length configs])) =
         refresh_calls w + length configs"
  using assms by (rule unauthorized_refresh_count)

text \<open>Three requests rejected at once: three refresh calls.\<close>

theorem refresh_call_per_unauthorized_request_witness:
  "hasWindow browser_session \<and> localStorage browser_session ''refresh_token'' = Some ''r0'' \<and>
   refresh_calls (exec browser_session
     [Call (request_config ''get'' ''/api/v1/documents'' []),
      Call (request_config ''get'' ''/api/v1/queries'' []),
      Call (request_config ''get'' ''/api/v1/auth/me'' []),
      Reply 0 unauthorized, Reply 1 unauthorized, Reply 2 unauthorized]) = 3"
  using refresh_call_per_unauthorized_request [of browser_session "''r0''"
      "\<lparr>status = 401, data = [''detail'' \<mapsto> ''Could not validate credentials'']\<rparr>"
      "[request_config ''get'' ''/api/v1/documents'' [],
        request_config ''get'' ''/api/v1/queries'' [],
        request_config ''get'' ''/api/v1/auth/me'' []]"]
  by (simp add: browser_session_fields unauthorized_def request_config_def upt_rec
      numeral_2_eq_2 numeral_3_eq_3)

text \<open>
  C1 as stated fails: two requests rejected at once, before either refresh call is
  answered, produce two refresh calls, not one.
\<close>

theorem single_refresh_counterexample:
  "refresh_calls (exec browser_session
     [Call (request_config ''get'' ''/api/v1/documents'' []),
      Call (request_config ''get'' ''/api/v1/queries'' []),
      Reply 0 unauthorized, Reply 1 unauthorized]) = 2"
  using unauthorized_refresh_count [of browser_session "''r0''"
      "\<lparr>status = 401, data = [''detail'' \<mapsto> ''Could not validate credentials'']\<rparr>"
      "[request_config ''get'' ''/api/v1/documents'' [],
        request_config ''get'' ''/api/v1/queries'' []]"]
  by (simp add: browser_session_fields unauthorized_def request_config_def upt_rec)

text \<open>
  C2 (as amended). A request that did not opt out is answered 401 while the browser holds
  a refresh token, and the refresh call then succeeds with a new pair of tokens. The
  access token held in memory and the two persisted tokens become the new pair. The
  response interceptor then returns; it does not send the original request again: the
  requests that went out are the original one and the refresh call, nothing else.
\<close>

theorem refresh_success_updates_tokens_without_retry:
  assumes "hasWindow w" "localStorage w ''refresh_token'' = Some rt" "rt \<noteq> []"
    and "\<not> skipAuth config" "status r = 401"
    and "data resp ''access_token'' = Some a" "data resp ''refresh_token'' = Some b"
    and "w' = exec w [Call config, Reply (length (sent w)) (Failure (HttpError r)),
                      Reply (Suc (length (sent w))) (Success resp)]"
  shows "authToken w' = Some a \<and> localStorage w' ''access_token'' = Some a \<and>
         localStorage w' ''refresh_token'' = Some b \<and>
         map url (sent w') = map url (sent w) @ [url config, ''/api/v1/auth/refresh'']"
  using refresh_succeeds [OF assms(1-5,8)] assms(6,7) by simp

theorem refresh_success_updates_tokens_without_retry_witness:
  "hasWindow browser_session \<and> localStorage browser_session ''refresh_token'' = Some ''r0'' \<and>
   \<not> skipAuth (request_config ''get'' ''/api/v1/documents'' []) \<and>
   authToken (exec browser_session
     [Call (request_config ''get'' ''/api/v1/documents'' []), Reply 0 unauthorized,
      Reply 1 (Success \<lparr>status = 200,
                 data = [''access_token'' \<mapsto> ''a1'', ''refresh_token'' \<mapsto> ''r1'']\<rparr>)]) = Some ''a1'' \<and>
   localStorage (exec browser_session
     [Call (request_config ''get'' ''/api/v1/documents'' []), Reply 0 unauthorized,
      Reply 1 (Success \<lparr>status = 200,
                 data = [''access_token'' \<mapsto> ''a1'', ''refresh_token'' \<mapsto> ''r1'']\<rparr>)])
     ''refresh_token'' = Some ''r1''"
  using refresh_success_updates_tokens_without_retry [of browser_session "''r0''"
      "request_config ''get'' ''/api/v1/documents'' []"
      "\<lparr>status = 401, data = [''detail'' \<mapsto> ''Could not validate credentials'']\<rparr>"
      "\<lparr>status = 200, data = [''access_token'' \<mapsto> ''a1'', ''refresh_token'' \<mapsto> ''r1'']\<rparr>"
      "''a1''" "''r1''"]
  by (simp add: browser_session_fields unauthorized_def request_config_def)

text \<open>
  C2 as stated fails: after the successful refresh the request for the documents has gone
  out once, not twice, and the caller's promise is rejected with the TypeError of
  \<open>response.data\<close> on the \<open>undefined\<close> the interceptor returned; the caller does
  not receive a retried request's result.
\<close>

theorem retry_after_refresh_counterexample:
  "map url (sent (exec browser_session
     [Call (request_config ''get'' ''/api/v1/documents'' []), Reply 0 unauthorized,
      Reply 1 (Success \<lparr>status = 200,
                 data = [''access_token'' \<mapsto> ''a1'', ''refresh_token'' \<mapsto> ''r1'']\<rparr>)]))
     = [''/api/v1/documents'', ''/api/v1/auth/refresh''] \<and>
   completed (exec browser_session
     [Call (request_config ''get'' ''/api/v1/documents'' []), Reply 0 unauthorized,
      Reply 1 (Success \<lparr>status = 200,
                 data = [''access_token'' \<mapsto> ''a1'', ''refresh_token'' \<mapsto> ''r1'']\<rparr>)])
     = [(0, Rejected TypeError)]"
  using refresh_succeeds(4,5) [of browser_session "''r0''"
      "request_config ''get'' ''/api/v1/documents'' []"
      "\<lparr>status = 401, data = [''detail'' \<mapsto> ''Could not validate credentials'']\<rparr>" _
      "\<lparr>status = 200, data = [''access_token'' \<mapsto> ''a1'', ''refresh_token'' \<mapsto> ''r1'']\<rparr>"]
  by (simp add: browser_session_fields unauthorized_def request_config_def)




text \<open>
  C4. The request interceptor sets the Authorization header to the bearer form of the
  access token exactly when a token is held (the field is a non-empty string) and the
  request did not set \<open>skipAuth\<close>; otherwise it leaves the header as the caller
  passed it, so a request that came without one goes out without one. The refresh call
  of \<open>handleTokenExpiration\<close> sets \<open>skipAuth\<close> and goes out without the header;
  and a request that set \<open>skipAuth\<close> never re-enters the handler when it fails: no
  request at all is sent on its failure.
\<close>

theorem access_token_attached_unless_opted_out:
  "headers (requestInterceptor w config) ''Authorization'' =
     (if truthy (authToken w) \<and> \<not> skipAuth config
      then Some (''Bearer '' @ the (authToken w)) else headers config ''Authorization'') \<and>
   (headers config ''Authorization'' = None \<longrightarrow>
     (headers (requestInterceptor w config) ''Authorization'' \<noteq> None) =
     ((\<exists>t. authToken w = Some t \<and> t \<noteq> []) \<and> \<not> skipAuth config)) \<and>
   (hasWindow w \<and> localStorage w ''refresh_token'' = Some rt \<and> rt \<noteq> [] \<longrightarrow>
     (\<exists>c. sent (handleTokenExpiration k w) = sent w @ [c] \<and>
          url c = ''/api/v1/auth/refresh'' \<and> skipAuth c \<and> headers c ''Authorization'' = None)) \<and>
   (pending w rid = Some (config, k) \<and> skipAuth config \<longrightarrow>
     sent (reply rid (Failure f) w) = sent w)"
proof -
  have 1: "headers (requestInterceptor w config) ''Authorization'' =
     (if truthy (authToken w) \<and> \<not> skipAuth config
      then Some (''Bearer '' @ the (authToken w)) else headers config ''Authorization'')"
    by (simp add: requestInterceptor_def Let_def)
  have t: "truthy (authToken w) = (\<exists>t. authToken w = Some t \<and> t \<noteq> [])"
    by (cases "authToken w") auto
  have 2: "headers config ''Authorization'' = None \<longrightarrow>
     (headers (requestInterceptor w config) ''Authorization'' \<noteq> None) =
     ((\<exists>t. authToken w = Some t \<and> t \<noteq> []) \<and> \<not> skipAuth config)"
    unfolding 1 t [symmetric] by simp
  have 3: "hasWindow w \<and> localStorage w ''refresh_token'' = Some rt \<and> rt \<noteq> [] \<longrightarrow>
     (\<exists>c. sent (handleTokenExpiration k w) = sent w @ [c] \<and>
          url c = ''/api/v1/auth/refresh'' \<and> skipAuth c \<and> headers c ''Authorization'' = None)"
    by (simp add: handleTokenExpiration_def Let_def send_fields requestInterceptor_fields
        refresh_config_fields)
      (simp add: requestInterceptor_def Let_def refresh_config_fields)
  have 4: "pending w rid = Some (config, k) \<and> skipAuth config \<longrightarrow>
     sent (reply rid (Failure f) w) = sent w"
    using reply_opted_out_sends_nothing by blast
  from 1 2 3 4 show ?thesis by blast
qed

theorem access_token_attached_unless_opted_out_witness:
  "headers (requestInterceptor browser_session (request_config ''get'' ''/api/v1/documents'' []))
     ''Authorization'' = Some ''Bearer a0'' \<and>
   headers (requestInterceptor browser_session (refresh_config ''r0'')) ''Authorization'' = None \<and>
   headers (request_config ''get'' ''/api/v1/documents'' []) ''Authorization'' = None"
  using access_token_attached_unless_opted_out [of browser_session
      "request_config ''get'' ''/api/v1/documents'' []"]
    access_token_attached_unless_opted_out [of browser_session "refresh_config ''r0''"]
  by (simp add: browser_session_fields request_config_def refresh_config_def)

text \<open>
  C8 (as amended). Every request the client sends carries an \<open>X-Correlation-ID\<close>
  header: in any run of the client from its initial state, the \<open>i\<close>-th request sent
  carries the id made of the \<open>i\<close>-th clock reading and the \<open>i\<close>-th random draw. The
  request interceptor generates that id anew each time a request passes it and overwrites
  whatever id the configuration already had; nothing carries an id from one attempt to
  the next. Two requests the client sent carry the same id exactly when the clock reading
  and the random draw of the two sends coincide.
\<close>

theorem correlation_id_generated_per_send:
  "(\<forall>i < length (sent (exec (new_world win ls clock rnd) evs)).
      headers (sent (exec (new_world win ls clock rnd) evs) ! i) ''X-Correlation-ID'' =
        Some (string_of_nat (clock i) @ ''-'' @ rnd i)) \<and>
   headers (requestInterceptor w config) ''X-Correlation-ID'' =
     Some (string_of_nat (Date_now w (tick w)) @ ''-'' @ Math_random36 w (tick w)) \<and>
   (\<forall>i < length (sent (exec (new_world win ls clock rnd) evs)).
    \<forall>j < length (sent (exec (new_world win ls clock rnd) evs)).
      (headers (sent (exec (new_world win ls clock rnd) evs) ! i) ''X-Correlation-ID'' =
       headers (sent (exec (new_world win ls clock rnd) evs) ! j) ''X-Correlation-ID'') =
      (clock i = clock j \<and> rnd i = rnd j))"
proof -
  have "stamped clock rnd (exec (new_world win ls clock rnd) evs)"
    by (intro stamped_exec stamped_new_world)
  then have 1: "\<forall>i < length (sent (exec (new_world win ls clock rnd) evs)).
      headers (sent (exec (new_world win ls clock rnd) evs) ! i) ''X-Correlation-ID'' =
        Some (string_of_nat (clock i) @ ''-'' @ rnd i)"
    by (simp add: stamped_def)
  have 2: "headers (requestInterceptor w config) ''X-Correlation-ID'' =
     Some (string_of_nat (Date_now w (tick w)) @ ''-'' @ Math_random36 w (tick w))"
    by (simp add: requestInterceptor_def generateCorrelationId_def Let_def)
  have 3: "\<forall>i < length (sent (exec (new_world win ls clock rnd) evs)).
    \<forall>j < length (sent (exec (new_world win ls clock rnd) evs)).
      (headers (sent (exec (new_world win ls clock rnd) evs) ! i) ''X-Correlation-ID'' =
       headers (sent (exec (new_world win ls clock rnd) evs) ! j) ''X-Correlation-ID'') =
      (clock i = clock j \<and> rnd i = rnd j)"
    using 1 correlation_id_eq_iff by simp
  from 1 2 3 show ?thesis by blast
qed

text \<open>
  A request and the refresh call that its 401 sets off: each carries its own id, and the
  two differ, the clock having moved on.
\<close>

theorem correlation_id_generated_per_send_witness:
  "headers (sent (exec browser_session
       [Call (request_config ''get'' ''/api/v1/documents'' []), Reply 0 unauthorized]) ! 0)
     ''X-Correlation-ID'' = Some ''1700000000000-k3j9x2m1q'' \<and>
   headers (sent (exec browser_session
       [Call (request_config ''get'' ''/api/v1/documents'' []), Reply 0 unauthorized]) ! 1)
     ''X-Correlation-ID'' = Some ''1700000000001-k3j9x2m1q'' \<and>
   headers (sent (exec browser_session
       [Call (request_config ''get'' ''/api/v1/documents'' []), Reply 0 unauthorized]) ! 0)
     ''X-Correlation-ID'' \<noteq>
   headers (sent (exec browser_session
       [Call (request_config ''get'' ''/api/v1/documents'' []), Reply 0 unauthorized]) ! 1)
     ''X-Correlation-ID''"
proof -
  let ?evs = "[Call (request_config ''get'' ''/api/v1/documents'' []), Reply 0 unauthorized]"
  let ?W = "exec browser_session ?evs"
  have l: "length (sent ?W) = 2"
    using call_then_unauthorized_fields(7) [of browser_session "''r0''"
        "request_config ''get'' ''/api/v1/documents'' []"
        "\<lparr>status = 401, data = [''detail'' \<mapsto> ''Could not validate credentials'']\<rparr>"
        "exec browser_session ?evs", THEN arg_cong, of length]
    by (simp add: browser_session_fields unauthorized_def request_config_def)
  note t = correlation_id_generated_per_send
      [of True "[''access_token'' \<mapsto> ''a0'', ''refresh_token'' \<mapsto> ''r0'']"
          "\<lambda>n. 1700000000000 + n" "\<lambda>n. ''k3j9x2m1q''" ?evs, folded browser_session_def]
  have a: "headers (sent ?W ! 0) ''X-Correlation-ID'' = Some ''1700000000000-k3j9x2m1q''"
    using t [THEN conjunct1, THEN spec, of 0] l
    by (simp add: string_of_nat.simps digit_char_def)
  have b: "headers (sent ?W ! 1) ''X-Correlation-ID'' = Some ''1700000000001-k3j9x2m1q''"
    using t [THEN conjunct1, THEN spec, of 1] l
    by (simp add: string_of_nat.simps digit_char_def)
  have c: "headers (sent ?W ! 0) ''X-Correlation-ID'' \<noteq> headers (sent ?W ! 1) ''X-Correlation-ID''"
    using t [THEN conjunct2, THEN conjunct2, THEN spec, of 0, THEN mp, THEN spec, of 1] l
    by simp
  from a b c show ?thesis by blast
qed

text \<open>
  C8 as stated fails: a request fails with a server error and is sent again one
  millisecond later, with the original's correlation id on its configuration; the second
  attempt goes out under a different id than the first.
\<close>

theorem shared_correlation_id_counterexample:
  "headers (sent (exec browser_session
       [Call (request_config ''get'' ''/api/v1/documents'' []),
        Reply 0 (Failure (HttpError \<lparr>status = 500, data = [''detail'' \<mapsto> ''Internal error'']\<rparr>)),
        Call ((request_config ''get'' ''/api/v1/documents'' [])
                \<lparr>headers := [''Content-Type'' \<mapsto> ''application/json'',
                             ''X-Correlation-ID'' \<mapsto> ''1700000000000-k3j9x2m1q'']\<rparr>)]) ! 0)
     ''X-Correlation-ID'' = Some ''1700000000000-k3j9x2m1q'' \<and>
   headers (sent (exec browser_session
       [Call (request_config ''get'' ''/api/v1/documents'' []),
        Reply 0 (Failure (HttpError \<lparr>status = 500, data = [''detail'' \<mapsto> ''Internal error'']\<rparr>)),
        Call ((request_config ''get'' ''/api/v1/documents'' [])
                \<lparr>headers := [''Content-Type'' \<mapsto> ''application/json'',
                             ''X-Correlation-ID'' \<mapsto> ''1700000000000-k3j9x2m1q'']\<rparr>)]) ! 1)
     ''X-Correlation-ID'' = Some ''1700000000001-k3j9x2m1q''"
proof -
  let ?evs = "[Call (request_config ''get'' ''/api/v1/documents'' []),
        Reply 0 (Failure (HttpError \<lparr>status = 500, data = [''detail'' \<mapsto> ''Internal error'']\<rparr>)),
        Call ((request_config ''get'' ''/api/v1/documents'' [])
                \<lparr>headers := [''Content-Type'' \<mapsto> ''application/json'',
                             ''X-Correlation-ID'' \<mapsto> ''1700000000000-k3j9x2m1q'']\<rparr>)]"
  have l: "length (sent (exec browser_session ?evs)) = 2"
    by (simp add: exec_def api_call_fields reply_failure_sends_nothing browser_session_fields)
  have "stamped (\<lambda>n. 1700000000000 + n) (\<lambda>n. ''k3j9x2m1q'') (exec browser_session ?evs)"
    unfolding browser_session_def by (intro stamped_exec stamped_new_world)
  then show ?thesis using l
    by (simp add: stamped_def string_of_nat.simps digit_char_def)
qed

text \<open>
  The \<open>catch\<close> block of \<open>login\<close>. Whenever the call that \<open>login\<close> awaits
  throws an error \<open>e\<close>, be it the credential exchange or the fetch of the user, the
  store is left with no user, no token and \<open>isAuthenticated = false\<close>, whatever it
  held before, and the same error is rethrown to the caller. The recorded message is the
  \<open>detail\<close> of the response the error carries when it has a non-empty one, and
  \<open>Login failed\<close> otherwise. When either call fails with anything but a 401, the
  error thrown is the one axios made of the server's answer, and its detail is recorded.
\<close>

theorem failed_login_clears_auth_store:
  assumes "frames = [LoginToken, Caller c] \<or> frames = [LoginUser t, Caller c]"
    and "failure_status f \<noteq> Some 401"
    and "w' = exec w [Login u p, Reply (length (sent w)) (Failure f)] \<or>
         w' = exec w [Login u p, Reply (length (sent w)) (Success resp),
                      Reply (Suc (length (sent w))) (Failure f)]"
  shows "store (run frames (Rejected e) w) =
           \<lparr>user = None, token = None, isAuthenticated = False, isLoading = False,
            error = Some (if truthy (response_detail e) then the (response_detail e)
                          else ''Login failed'')\<rparr> \<and>
         completed (run frames (Rejected e) w) = completed w @ [(c, Rejected e)] \<and>
         store w' =
           \<lparr>user = None, token = None, isAuthenticated = False, isLoading = False,
            error = Some (if truthy (failure_detail f) then the (failure_detail f)
                          else ''Login failed'')\<rparr> \<and>
         (\<exists>config. completed w' = completed w @ [(calls w, Rejected (AxiosError config f))])"
proof -
  from assms(1)
  have r: "run frames (Rejected e) w = (login_catch e w)\<lparr>completed := completed w @ [(c, Rejected e)]\<rparr>"
    by (elim disjE) (simp_all only: login_rejected)
  have 1: "store (run frames (Rejected e) w) = store (login_catch e w)"
    and 2: "completed (run frames (Rejected e) w) = completed w @ [(c, Rejected e)]"
    unfolding r by simp_all
  from assms(3)
  have 3: "store w' = store (login_catch (AxiosError undefined f) w)"
  proof (elim disjE)
    assume "w' = exec w [Login u p, Reply (length (sent w)) (Failure f)]"
    then show ?thesis by (rule login_exchange_fails(1) [OF assms(2)])
  next
    assume "w' = exec w [Login u p, Reply (length (sent w)) (Success resp),
                         Reply (Suc (length (sent w))) (Failure f)]"
    then show ?thesis by (rule login_user_info_fails(1) [OF assms(2)])
  qed
  from assms(3)
  have 4: "\<exists>config. completed w' = completed w @ [(calls w, Rejected (AxiosError config f))]"
  proof (elim disjE)
    assume "w' = exec w [Login u p, Reply (length (sent w)) (Failure f)]"
    then show ?thesis by (rule login_exchange_fails(2) [OF assms(2)])
  next
    assume "w' = exec w [Login u p, Reply (length (sent w)) (Success resp),
                         Reply (Suc (length (sent w))) (Failure f)]"
    then show ?thesis by (rule login_user_info_fails(2) [OF assms(2)])
  qed
  have 5: "store (login_catch (AxiosError undefined f) w) =
           \<lparr>user = None, token = None, isAuthenticated = False, isLoading = False,
            error = Some (if truthy (failure_detail f) then the (failure_detail f)
                          else ''Login failed'')\<rparr>"
    by (simp add: login_catch_store)
  show ?thesis unfolding 1 2 3 5 login_catch_store using 4 by simp
qed

text \<open>A server error with a detail, while a user is logged in: the detail is recorded.\<close>

theorem login_server_error_detail_recorded:
  "failure_status (HttpError \<lparr>status = 500, data = [''detail'' \<mapsto> ''Internal error'']\<rparr>) \<noteq> Some 401 \<and>
   store (exec (browser_session\<lparr>store :=
             \<lparr>user = Some [''username'' \<mapsto> ''ada''], token = Some ''a0'',
              isAuthenticated = True, isLoading = False, error = None\<rparr>\<rparr>)
          [Login ''ada'' ''pw'',
           Reply 0 (Failure (HttpError \<lparr>status = 500, data = [''detail'' \<mapsto> ''Internal error'']\<rparr>))]) =
     \<lparr>user = None, token = None, isAuthenticated = False, isLoading = False,
      error = Some ''Internal error''\<rparr>"
  using failed_login_clears_auth_store [of "[LoginToken, Caller 0]" 0 _
      "HttpError \<lparr>status = 500, data = [''detail'' \<mapsto> ''Internal error'']\<rparr>"
      "exec (browser_session\<lparr>store :=
             \<lparr>user = Some [''username'' \<mapsto> ''ada''], token = Some ''a0'',
              isAuthenticated = True, isLoading = False, error = None\<rparr>\<rparr>)
          [Login ''ada'' ''pw'',
           Reply 0 (Failure (HttpError \<lparr>status = 500, data = [''detail'' \<mapsto> ''Internal error'']\<rparr>))]"
      "browser_session\<lparr>store :=
             \<lparr>user = Some [''username'' \<mapsto> ''ada''], token = Some ''a0'',
              isAuthenticated = True, isLoading = False, error = None\<rparr>\<rparr>"
      "''ada''" "''pw''"]
  by (simp add: browser_session_fields)

text \<open>
  C9. The claim says that a failed login leaves the store with no user, no token and
  \<open>isAuthenticated = false\<close>, records the server's error detail and rethrows the
  error. The store does try to record the server's detail
  (\<open>error.response?.data?.detail\<close>), and does so for a server error, as above. It
  misses it at the most common failure: a visitor logs in with a wrong password and the
  server answers 401 with a detail. The response interceptor takes the 401 for an expired
  token, finds no refresh token and returns \<open>undefined\<close>; \<open>post\<close> throws a
  TypeError on \<open>response.data\<close>; the store is cleared, but it records
  \<open>Login failed\<close>, not the server's detail, and the error rethrown is the TypeError.
\<close>

theorem login_unauthorized_loses_server_detail:
  "store (exec visitor
      [Login ''ada'' ''wrong'',
       Reply 0 (Failure (HttpError
         \<lparr>status = 401, data = [''detail'' \<mapsto> ''Incorrect username or password'']\<rparr>))]) =
     \<lparr>user = None, token = None, isAuthenticated = False, isLoading = False,
      error = Some ''Login failed''\<rparr> \<and>
   completed (exec visitor
      [Login ''ada'' ''wrong'',
       Reply 0 (Failure (HttpError
         \<lparr>status = 401, data = [''detail'' \<mapsto> ''Incorrect username or password'']\<rparr>))]) =
     [(0, Rejected TypeError)]"
  using login_unauthorized_no_token [of visitor
      "\<lparr>status = 401, data = [''detail'' \<mapsto> ''Incorrect username or password'']\<rparr>" _
      "''ada''" "''wrong''"]
  by (simp add: visitor_fields login_catch_store)

section \<open>What the password pattern accepts\<close>

lemma all_from:
  "i < j \<Longrightarrow> (\<forall>k. i \<le> k \<and> k < j \<longrightarrow> P k) = (P i \<and> (\<forall>k. Suc i \<le> k \<and> k < j \<longrightarrow> P k))"
  by (metis Suc_leI le_eq_less_or_eq Suc_leD order_refl)

lemma iter_single:
  assumes "\<And>i j. p i j = (i < m \<and> j = Suc i \<and> P i)"
  shows "iter p e n i j = (j = i + n \<and> (0 < n \<longrightarrow> j \<le> m) \<and> (\<forall>k. i \<le> k \<and> k < j \<longrightarrow> P k))"
proof (induction n arbitrary: i)
  case 0
  then show ?case by auto
next
  case (Suc n)
  have "iter p e (Suc n) i j = (i < m \<and> P i \<and> Suc i \<le> j \<and> iter p e n (Suc i) j)"
    by (auto simp: assms)
  also have "\<dots> = (i < m \<and> P i \<and> Suc i \<le> j \<and> j = Suc i + n \<and> (0 < n \<longrightarrow> j \<le> m) \<and>
                   (\<forall>k. Suc i \<le> k \<and> k < j \<longrightarrow> P k))"
    by (simp add: Suc.IH)
  also have "\<dots> = (j = i + Suc n \<and> (0 < Suc n \<longrightarrow> j \<le> m) \<and> (\<forall>k. i \<le> k \<and> k < j \<longrightarrow> P k))"
    using all_from [of i j P] by auto
  finally show ?case .
qed

lemma star_single:
  assumes "\<And>i j. matches a s i j = (i < length s \<and> j = Suc i \<and> P i)"
  shows "matches (Star a) s i j =
           (i \<le> j \<and> (i < j \<longrightarrow> j \<le> length s) \<and> (\<forall>k. i \<le> k \<and> k < j \<longrightarrow> P k))"
proof -
  have "matches (Star a) s i j =
          (\<exists>n\<le>j - i. j = i + n \<and> (0 < n \<longrightarrow> j \<le> length s) \<and> (\<forall>k. i \<le> k \<and> k < j \<longrightarrow> P k))"
    by (simp add: iter_single [where p = "matches a s" and m = "length s" and P = P, OF assms] Bex_def)
  also have "\<dots> = (i \<le> j \<and> (i < j \<longrightarrow> j \<le> length s) \<and> (\<forall>k. i \<le> k \<and> k < j \<longrightarrow> P k))"
    by auto
  finally show ?thesis .
qed

lemma atleast_single:
  assumes "\<And>i j. matches a s i j = (i < length s \<and> j = Suc i \<and> P i)"
  shows "matches (AtLeast m a) s i j =
           (i + m \<le> j \<and> (i < j \<longrightarrow> j \<le> length s) \<and> (\<forall>k. i \<le> k \<and> k < j \<longrightarrow> P k))"
proof -
  note it = iter_single [where p = "matches a s" and m = "length s" and P = P, OF assms]
  have "matches (AtLeast m a) s i j =
          (\<exists>k\<in>{i..j}. (k = i + m \<and> (0 < m \<longrightarrow> k \<le> length s) \<and> (\<forall>l. i \<le> l \<and> l < k \<longrightarrow> P l)) \<and>
             (\<exists>n\<le>j - k. j = k + n \<and> (0 < n \<longrightarrow> j \<le> length s) \<and> (\<forall>l. k \<le> l \<and> l < j \<longrightarrow> P l)))"
    by (simp add: it Bex_def)
  also have "\<dots> = (i + m \<le> j \<and> (i < j \<longrightarrow> j \<le> length s) \<and> (\<forall>k. i \<le> k \<and> k < j \<longrightarrow> P k))"
  proof
    assume "\<exists>k\<in>{i..j}. (k = i + m \<and> (0 < m \<longrightarrow> k \<le> length s) \<and> (\<forall>l. i \<le> l \<and> l < k \<longrightarrow> P l)) \<and>
             (\<exists>n\<le>j - k. j = k + n \<and> (0 < n \<longrightarrow> j \<le> length s) \<and> (\<forall>l. k \<le> l \<and> l < j \<longrightarrow> P l))"
    then obtain k n where k: "k = i + m" "0 < m \<longrightarrow> k \<le> length s" "\<forall>l. i \<le> l \<and> l < k \<longrightarrow> P l"
      and n: "j = k + n" "0 < n \<longrightarrow> j \<le> length s" "\<forall>l. k \<le> l \<and> l < j \<longrightarrow> P l"
      by blast
    have "P l" if "i \<le> l" "l < j" for l
      using that k(3) n(3) by (cases "l < k") auto
    moreover have "j \<le> length s" if "i < j"
      using that k n by (cases "n = 0") auto
    ultimately show "i + m \<le> j \<and> (i < j \<longrightarrow> j \<le> length s) \<and> (\<forall>k. i \<le> k \<and> k < j \<longrightarrow> P k)"
      using k n by auto
  next
    assume a: "i + m \<le> j \<and> (i < j \<longrightarrow> j \<le> length s) \<and> (\<forall>k. i \<le> k \<and> k < j \<longrightarrow> P k)"
    then have "(i + m = i + m \<and> (0 < m \<longrightarrow> i + m \<le> length s) \<and> (\<forall>l. i \<le> l \<and> l < i + m \<longrightarrow> P l)) \<and>
             (\<exists>n\<le>j - (i + m). j = (i + m) + n \<and> (0 < n \<longrightarrow> j \<le> length s) \<and> (\<forall>l. (i + m) \<le> l \<and> l < j \<longrightarrow> P l))"
      by (auto intro!: exI [of _ "j - (i + m)"])
    moreover have "i + m \<in> {i..j}" using a by simp
    ultimately show "\<exists>k\<in>{i..j}. (k = i + m \<and> (0 < m \<longrightarrow> k \<le> length s) \<and> (\<forall>l. i \<le> l \<and> l < k \<longrightarrow> P l)) \<and>
             (\<exists>n\<le>j - k. j = k + n \<and> (0 < n \<longrightarrow> j \<le> length s) \<and> (\<forall>l. k \<le> l \<and> l < j \<longrightarrow> P l))"
      by blast
  qed
  finally show ?thesis .
qed

lemma any_single:
  "matches Any s i j = (i < length s \<and> j = Suc i \<and> \<not> line_terminator (s ! i))"
  by simp

lemma class_single:
  "matches (Class c) s i j = (i < length s \<and> j = Suc i \<and> (\<exists>x\<in>set c. in_item x (s ! i)))"
  by simp

lemma lookahead_contains:
  "matches (Lookahead (Cat (Star Any) (Class c))) s 0 j =
     (j = 0 \<and> (\<exists>k<length s. (\<exists>x\<in>set c. in_item x (s ! k)) \<and> (\<forall>l<k. \<not> line_terminator (s ! l))))"
proof -
  have "matches (Lookahead (Cat (Star Any) (Class c))) s 0 j =
          (j = 0 \<and> (\<exists>e\<in>{0..length s}. \<exists>k\<in>{0..e}. matches (Star Any) s 0 k \<and> matches (Class c) s k e))"
    by simp
  also have "\<dots> = (j = 0 \<and> (\<exists>e\<in>{0..length s}. \<exists>k\<in>{0..e}.
                 ((0 < k \<longrightarrow> k \<le> length s) \<and> (\<forall>l. l < k \<longrightarrow> \<not> line_terminator (s ! l))) \<and>
                 (k < length s \<and> e = Suc k \<and> (\<exists>x\<in>set c. in_item x (s ! k)))))"
    unfolding star_single [of Any s "\<lambda>i. \<not> line_terminator (s ! i)", OF any_single] class_single
    by simp
  also have "\<dots> = (j = 0 \<and> (\<exists>k<length s. (\<exists>x\<in>set c. in_item x (s ! k)) \<and> (\<forall>l<k. \<not> line_terminator (s ! l))))"
  proof -
    have "(\<exists>e\<in>{0..length s}. \<exists>k\<in>{0..e}.
             ((0 < k \<longrightarrow> k \<le> length s) \<and> (\<forall>l. l < k \<longrightarrow> \<not> line_terminator (s ! l))) \<and>
             (k < length s \<and> e = Suc k \<and> (\<exists>x\<in>set c. in_item x (s ! k)))) =
          (\<exists>k<length s. (\<exists>x\<in>set c. in_item x (s ! k)) \<and> (\<forall>l<k. \<not> line_terminator (s ! l)))"
      (is "?l = ?r")
    proof
      assume ?l then show ?r by auto
    next
      assume ?r
      then obtain k where k: "k < length s" "\<exists>x\<in>set c. in_item x (s ! k)"
        "\<forall>l<k. \<not> line_terminator (s ! l)" by blast
      then have "Suc k \<in> {0..length s}" "k \<in> {0..Suc k}" by simp_all
      with k show ?l by (intro bexI [of _ "Suc k"] bexI [of _ k]) auto
    qed
    then show ?thesis by simp
  qed
  finally show ?thesis .
qed

lemma class_password:
  "(\<exists>x\<in>set [CharRange CHR ''a'' CHR ''z'', CharRange CHR ''A'' CHR ''Z'', Digit,
               Lit CHR ''@'', Lit CHR ''$'', Lit CHR ''!'', Lit CHR ''%'',
               Lit CHR ''*'', Lit CHR ''?'', Lit CHR ''&'']. in_item x u) =
   (ascii_lower u \<or> ascii_upper u \<or> ascii_digit u \<or> listed_symbol u)"
  "(\<exists>x\<in>set [CharRange CHR ''a'' CHR ''z'']. in_item x u) = ascii_lower u"
  "(\<exists>x\<in>set [CharRange CHR ''A'' CHR ''Z'']. in_item x u) = ascii_upper u"
  "(\<exists>x\<in>set [Digit]. in_item x u) = ascii_digit u"
  by (auto simp: ascii_lower_def ascii_upper_def ascii_digit_def listed_symbol_def js_def)

lemma allowed_not_line_terminator:
  "ascii_lower u \<or> ascii_upper u \<or> ascii_digit u \<or> listed_symbol u \<Longrightarrow> \<not> line_terminator u"
  by (auto simp: ascii_lower_def ascii_upper_def ascii_digit_def listed_symbol_def js_def line_terminator_def)

lemma validatePassword_indexwise:
  "validatePassword s =
     (8 \<le> length s \<and>
      (\<forall>k<length s. ascii_lower (s ! k) \<or> ascii_upper (s ! k) \<or> ascii_digit (s ! k) \<or> listed_symbol (s ! k)) \<and>
      (\<exists>k<length s. ascii_lower (s ! k) \<and> (\<forall>l<k. \<not> line_terminator (s ! l))) \<and>
      (\<exists>k<length s. ascii_upper (s ! k) \<and> (\<forall>l<k. \<not> line_terminator (s ! l))) \<and>
      (\<exists>k<length s. ascii_digit (s ! k) \<and> (\<forall>l<k. \<not> line_terminator (s ! l))))"
proof -
  let ?cls = "Class [CharRange CHR ''a'' CHR ''z'', CharRange CHR ''A'' CHR ''Z'', Digit,
                            Lit CHR ''@'', Lit CHR ''$'', Lit CHR ''!'', Lit CHR ''%'',
                            Lit CHR ''*'', Lit CHR ''?'', Lit CHR ''&'']"
  let ?ok = "\<lambda>k. ascii_lower (s ! k) \<or> ascii_upper (s ! k) \<or> ascii_digit (s ! k) \<or> listed_symbol (s ! k)"
  have cls: "matches ?cls s i j = (i < length s \<and> j = Suc i \<and> ?ok i)" for i j
    unfolding class_single class_password ..
  note al = atleast_single [of ?cls s ?ok 8, OF cls]
  have tail: "matches (Cat (AtLeast 8 ?cls) Eol) s 0 j =
                (j = length s \<and> 8 \<le> length s \<and> (\<forall>k<length s. ?ok k))" for j
    unfolding matches.simps(5) al by auto
  have "validatePassword s =
     (\<exists>j\<in>{0..length s}.
        matches (Lookahead (Cat (Star Any) (Class [CharRange CHR ''a'' CHR ''z'']))) s 0 0 \<and>
        matches (Lookahead (Cat (Star Any) (Class [CharRange CHR ''A'' CHR ''Z'']))) s 0 0 \<and>
        matches (Lookahead (Cat (Star Any) (Class [Digit]))) s 0 0 \<and>
        matches (Cat (AtLeast 8 ?cls) Eol) s 0 j)"
    unfolding validatePassword_def test_def passwordRegex_def matches.simps(5) [of Bol]
      matches.simps(5) [of "Lookahead x" for x] matches.simps(1) matches.simps(8)
    by auto
  then show ?thesis
    unfolding tail lookahead_contains class_password by auto
qed

lemma validatePassword_characterised: "validatePassword s = password_accepted s"
proof -
  let ?ok = "\<lambda>u. ascii_lower u \<or> ascii_upper u \<or> ascii_digit u \<or> listed_symbol u"
  show ?thesis
  proof (cases "\<forall>k<length s. ?ok (s ! k)")
    case True
    then have nl: "\<not> line_terminator (s ! l)" if "l < k" "k < length s" for l k
      using that allowed_not_line_terminator [of "s ! l"] by simp
    have 1: "(\<exists>k<length s. P (s ! k) \<and> (\<forall>l<k. \<not> line_terminator (s ! l))) = (\<exists>u\<in>set s. P u)" for P
    proof
      assume "\<exists>k<length s. P (s ! k) \<and> (\<forall>l<k. \<not> line_terminator (s ! l))"
      then show "\<exists>u\<in>set s. P u" using nth_mem by blast
    next
      assume "\<exists>u\<in>set s. P u"
      then obtain k where "k < length s" "P (s ! k)" by (auto simp: in_set_conv_nth)
      then show "\<exists>k<length s. P (s ! k) \<and> (\<forall>l<k. \<not> line_terminator (s ! l))"
        using nl by blast
    qed
    have 2: "(\<forall>u\<in>set s. ?ok u)"
      using True by (auto simp: in_set_conv_nth)
    show ?thesis
      unfolding validatePassword_indexwise password_accepted_def 1 using True 2 by simp
  next
    case False
    then obtain k where "k < length s" "\<not> ?ok (s ! k)" by blast
    then have "\<not> (\<forall>u\<in>set s. ?ok u)" using nth_mem [of k s] by blast
    with False show ?thesis
      unfolding validatePassword_indexwise password_accepted_def by blast
  qed
qed

text \<open>
  C10. \<open>validatePassword\<close> returns true exactly for the passwords of at least 8
  code units that consist only of ASCII letters, digits and the symbols \<open>@$!%*?&\<close>
  and contain a lowercase letter, an uppercase letter and a digit. In particular it
  returns false for \<open>Passw0rd#\<close> and for \<open>Pass w0rd\<close>, which are long enough and
  contain all three kinds of character, but also \<open>#\<close> or a space.
\<close>

theorem validatePassword_accepts_exactly:
  "validatePassword pw = password_accepted pw \<and>
   8 \<le> length (js ''Passw0rd#'') \<and> (\<exists>u\<in>set (js ''Passw0rd#''). ascii_lower u) \<and>
   (\<exists>u\<in>set (js ''Passw0rd#''). ascii_upper u) \<and> (\<exists>u\<in>set (js ''Passw0rd#''). ascii_digit u) \<and>
   \<not> validatePassword (js ''Passw0rd#'') \<and>
   8 \<le> length (js ''Pass w0rd'') \<and> (\<exists>u\<in>set (js ''Pass w0rd''). ascii_lower u) \<and>
   (\<exists>u\<in>set (js ''Pass w0rd''). ascii_upper u) \<and> (\<exists>u\<in>set (js ''Pass w0rd''). ascii_digit u) \<and>
   \<not> validatePassword (js ''Pass w0rd'')"
  unfolding validatePassword_characterised
  by (simp add: password_accepted_def js_def ascii_lower_def ascii_upper_def ascii_digit_def
      listed_symbol_def)

theorem validatePassword_accepts_exactly_witness:
  "validatePassword (js ''Abcdef12'') \<and> validatePassword (js ''S3cure!Pass'') \<and>
   \<not> validatePassword (js ''Abcde12'') \<and> \<not> validatePassword (js ''abcdefg1'')"
  using validatePassword_accepts_exactly [of "js ''Abcdef12''"]
    validatePassword_accepts_exactly [of "js ''S3cure!Pass''"]
    validatePassword_accepts_exactly [of "js ''Abcde12''"]
    validatePassword_accepts_exactly [of "js ''abcdefg1''"]
  by (simp add: password_accepted_def js_def ascii_lower_def ascii_upper_def ascii_digit_def
      listed_symbol_def)

section \<open>The rating constraint of the \<open>queries\<close> table\<close>

lemma user_rating_check_iff: "user_rating_check row = rating_in_range row"
  by (cases "user_rating row") (auto simp: user_rating_check_def rating_in_range_def)

lemma execute_keeps_ratings:
  assumes "\<forall>r\<in>set tbl. rating_in_range r" "execute users tbl st = Inr tbl1"
  shows "\<forall>r\<in>set tbl1. rating_in_range r"
proof (cases st)
  case (Insert row)
  with assms show ?thesis
    by (auto simp: insert_query_def user_rating_check_iff split: if_splits)
next
  case (Update qid row)
  with assms show ?thesis
    by (auto simp: update_query_def Let_def user_rating_check_iff split: if_splits)
next
  case (Delete qid)
  with assms show ?thesis
    by (auto simp: delete_query_def split: if_splits)
qed

lemma execute_all_keeps_ratings:
  "\<forall>r\<in>set tbl. rating_in_range r \<Longrightarrow> \<forall>r\<in>set (execute_all users tbl sts). rating_in_range r"
proof (induction sts arbitrary: tbl)
  case Nil
  then show ?case by simp
next
  case (Cons st sts)
  show ?case
  proof (cases "execute users tbl st")
    case (Inl e)
    then show ?thesis using Cons by simp
  next
    case (Inr tbl1)
    then have "\<forall>r\<in>set tbl1. rating_in_range r"
      using execute_keeps_ratings Cons.prems by blast
    then show ?thesis using Inr Cons.IH by simp
  qed
qed

text \<open>
  C7. Whatever statements are run against the table, starting from the empty table, the
  rating of every stored row is either absent or an integer from 1 to 5; a statement
  that would store another rating is refused with a check violation.
\<close>

theorem stored_rating_between_1_and_5:
  "(\<forall>row\<in>set (execute_all users [] sts). \<forall>r. user_rating row = Some r \<longrightarrow> 1 \<le> r \<and> r \<le> 5) \<and>
   (user_rating row = Some r \<and> \<not> (1 \<le> r \<and> r \<le> 5) \<and> not_null_columns row \<longrightarrow>
      insert_query users tbl row = Inl CheckViolation \<and>
      (query_id row \<in> set (map query_id tbl) \<longrightarrow> update_query users tbl (query_id row) row = Inl CheckViolation))"
proof -
  have "\<forall>row\<in>set (execute_all users [] sts). rating_in_range row"
    by (rule execute_all_keeps_ratings) simp
  then have 1: "\<forall>row\<in>set (execute_all users [] sts). \<forall>r. user_rating row = Some r \<longrightarrow> 1 \<le> r \<and> r \<le> 5"
    by (auto simp: rating_in_range_def)
  have 2: "user_rating row = Some r \<and> \<not> (1 \<le> r \<and> r \<le> 5) \<and> not_null_columns row \<longrightarrow>
      insert_query users tbl row = Inl CheckViolation \<and>
      (query_id row \<in> set (map query_id tbl) \<longrightarrow> update_query users tbl (query_id row) row = Inl CheckViolation)"
    by (auto simp: insert_query_def update_query_def Let_def user_rating_check_iff rating_in_range_def)
  from 1 2 show ?thesis by blast
qed

text \<open>A query is stored, rated 4, and a rating of 6 is refused: the stored rating stays 4.\<close>

theorem stored_rating_between_1_and_5_witness:
  "map user_rating (execute_all [7] []
      [Insert sample_query, Update 1 (sample_query\<lparr>user_rating := Some 4\<rparr>),
       Update 1 (sample_query\<lparr>user_rating := Some 6\<rparr>)]) = [Some 4] \<and>
   insert_query [7] [] (sample_query\<lparr>user_rating := Some 0\<rparr>) = Inl CheckViolation"
  using stored_rating_between_1_and_5 [of "[7]"
      "[Insert sample_query, Update 1 (sample_query\<lparr>user_rating := Some 4\<rparr>),
        Update 1 (sample_query\<lparr>user_rating := Some 6\<rparr>)]"
      "sample_query\<lparr>user_rating := Some 0\<rparr>" 0 "[]"]
  by (simp add: sample_query_def insert_query_def update_query_def not_null_columns_def
      user_rating_check_def references_hold_def Let_def)

section \<open>Conversation threading\<close>

lemma find_query:
  assumes "find (\<lambda>q. query_id q = p) tbl = Some parent"
  shows "parent \<in> set tbl" and "query_id parent = p"
  using assms by (auto simp: find_Some_iff)

lemma query_id_below_next: "q \<in> set tbl \<Longrightarrow> query_id q < next_query_id tbl"
  by (induction tbl) (auto simp: next_query_id_def)

lemma next_query_id_fresh: "next_query_id tbl \<notin> set (map query_id tbl)"
  using query_id_below_next by fastforce

lemma threaded_insert:
  assumes "threaded tbl" "query_id row \<notin> set (map query_id tbl)"
    and "\<forall>p. parent_query_id row = Some p \<longrightarrow>
           (\<exists>parent\<in>set tbl. query_id parent = p \<and> conversation_id row = conversation_id parent)"
  shows "threaded (tbl @ [row])"
  using assms unfolding threaded_def by (auto; blast)

lemma threaded_update:
  assumes "threaded tbl" "conversation_id row = conversation_id q" "parent_query_id row = parent_query_id q"
    and "q \<in> set tbl" "query_id q = qid" "query_id row = qid"
  shows "threaded (map (\<lambda>r. if query_id r = qid then row else r) tbl)"
proof -
  let ?f = "\<lambda>r. if query_id r = qid then row else r"
  have ids: "map query_id (map ?f tbl) = map query_id tbl"
    using assms(6) by (induction tbl) auto
  have same: "r \<in> set tbl \<Longrightarrow> query_id r = qid \<Longrightarrow> r = q" for r
    using assms(1,4,5) unfolding threaded_def by (metis distinct_map inj_on_def)
  have keep: "conversation_id (?f r) = conversation_id r \<and> parent_query_id (?f r) = parent_query_id r \<and>
              query_id (?f r) = query_id r" if "r \<in> set tbl" for r
    using that same [of r] assms(2,3,6) by auto
  have "\<exists>parent\<in>set (map ?f tbl). query_id parent = p \<and> conversation_id x = conversation_id parent"
    if x: "x \<in> set (map ?f tbl)" and p: "parent_query_id x = Some p" for x p
  proof -
    from x obtain r where r: "r \<in> set tbl" "x = ?f r" by auto
    with p keep [OF r(1)] have "parent_query_id r = Some p" by simp
    with assms(1) r obtain parent where
      par: "parent \<in> set tbl" "query_id parent = p" "conversation_id r = conversation_id parent"
      unfolding threaded_def by blast
    have "?f parent \<in> set (map ?f tbl)" using par(1) by simp
    moreover have "query_id (?f parent) = p" using keep [OF par(1)] par(2) by simp
    moreover have "conversation_id x = conversation_id (?f parent)"
      using keep [OF par(1)] keep [OF r(1)] r(2) par(3) by simp
    ultimately show ?thesis by blast
  qed
  then show ?thesis unfolding threaded_def ids using assms(1) by (simp add: threaded_def)
qed

lemma threaded_update_query:
  assumes "threaded tbl" "find (\<lambda>q. query_id q = qid) tbl = Some q"
    and "conversation_id row = conversation_id q" "parent_query_id row = parent_query_id q"
    and "update_query users tbl qid row = Inr tbl1"
  shows "threaded tbl1"
proof -
  note f = find_query [OF assms(2)]
  have "qid \<in> set (map query_id tbl)" using f by force
  with assms(5) have "tbl1 = map (\<lambda>r. if query_id r = qid then row\<lparr>query_id := qid\<rparr> else r) tbl"
    by (auto simp: update_query_def Let_def split: if_splits)
  then show ?thesis
    using threaded_update [OF assms(1) _ _ f(1) f(2), of "row\<lparr>query_id := qid\<rparr>"] assms(3,4)
    by simp
qed

lemma resolve_thread_parent:
  assumes "resolve_thread tbl userId opts = Inr conv" "opt_parentQueryId opts = Some p"
  shows "\<exists>parent\<in>set tbl. query_id parent = p \<and> conv = conversation_id parent"
  using assms
  by (auto simp: resolve_thread_def split: option.splits if_splits dest: find_query)

lemma threaded_submit:
  assumes "threaded tbl" "submit users tbl userId text opts = Inr (tbl1, row)"
  shows "threaded tbl1"
proof -
  from assms(2) obtain conv where
    conv: "resolve_thread tbl userId opts = Inr conv"
    by (auto simp: submit_def split: sum.splits)
  define r where "r = \<lparr>query_id = next_query_id tbl, query_text = Some text,
                      query_type = Some ''semantic'', query_status = Some ''pending'',
                      conversation_id = conv, parent_query_id = opt_parentQueryId opts,
                      user_rating = None, user_feedback = None, user_id = Some userId\<rparr>"
  from assms(2) conv have "insert_query users tbl r = Inr tbl1"
    by (auto simp: submit_def Let_def r_def split: sum.splits)
  then have t: "tbl1 = tbl @ [r]"
    by (auto simp: insert_query_def split: if_splits)
  have "\<forall>p. parent_query_id r = Some p \<longrightarrow>
           (\<exists>parent\<in>set tbl. query_id parent = p \<and> conversation_id r = conversation_id parent)"
    using resolve_thread_parent [OF conv] by (simp add: r_def)
  moreover have "query_id r \<notin> set (map query_id tbl)"
    using next_query_id_fresh [of tbl] by (simp add: r_def)
  ultimately show ?thesis unfolding t using assms(1) by (intro threaded_insert)
qed

lemma threaded_orchestrate:
  assumes "threaded tbl" "orchestrate users tbl c = Inr tbl1"
  shows "threaded tbl1"
proof (cases c)
  case (Submit userId question opts)
  with assms(2) obtain row where "submit users tbl userId question opts = Inr (tbl1, row)"
    by (auto split: sum.splits)
  then show ?thesis using threaded_submit assms(1) by blast
next
  case (Resolve qid succeeded)
  with assms(2) obtain q where q: "find (\<lambda>q. query_id q = qid) tbl = Some q"
    and u: "update_query users tbl qid
              (q\<lparr>query_status := Some (if succeeded then ''completed'' else ''failed'')\<rparr>) = Inr tbl1"
    by (auto simp: resolve_query_def stored_def split: option.splits if_splits sum.splits)
  show ?thesis by (rule threaded_update_query [OF assms(1) q _ _ u]) simp_all
next
  case (Rate qid userId rating feedback)
  with assms(2) obtain q where q: "find (\<lambda>q. query_id q = qid) tbl = Some q"
    and u: "update_query users tbl qid (q\<lparr>user_rating := Some rating, user_feedback := feedback\<rparr>) = Inr tbl1"
    by (auto simp: rate_def stored_def split: option.splits if_splits sum.splits)
  show ?thesis by (rule threaded_update_query [OF assms(1) q _ _ u]) simp_all
qed

lemma threaded_orchestrate_all:
  "threaded tbl \<Longrightarrow> threaded (orchestrate_all users tbl cs)"
proof (induction cs arbitrary: tbl)
  case Nil
  then show ?case by simp
next
  case (Cons c cs)
  show ?case
  proof (cases "orchestrate users tbl c")
    case (Inl e)
    then show ?thesis using Cons by simp
  next
    case (Inr tbl1)
    then have "threaded tbl1" using threaded_orchestrate Cons.prems by blast
    then show ?thesis using Inr Cons.IH by simp
  qed
qed

lemma conversations_member:
  "q \<in> set tbl \<Longrightarrow> conversation_id q = Some c \<Longrightarrow> c \<in> set (conversations tbl)"
  by (induction tbl) (auto simp: conversations_def)

lemma length_below_longest: "x \<in> set used \<Longrightarrow> length x \<le> foldr max (map length used) 0"
  by (induction used) (auto simp: max_def)

lemma mint_conversation_id_fresh: "mint_conversation_id used \<notin> set used"
proof
  assume "mint_conversation_id used \<in> set used"
  then have "length (mint_conversation_id used) \<le> foldr max (map length used) 0"
    by (rule length_below_longest)
  then show False by (simp add: mint_conversation_id_def)
qed

lemma submit_new_thread:
  assumes "opt_parentQueryId opts = None" "opt_conversationId opts = None"
    and "submit users tbl userId question opts = Inr (tbl1, row)"
  shows "conversation_id row = Some (mint_conversation_id (conversations tbl))"
    and "mint_conversation_id (conversations tbl) \<notin> set (conversations tbl)"
    and "\<forall>q\<in>set tbl. conversation_id q \<noteq> conversation_id row"
    and "tbl1 = tbl @ [row]"
proof -
  have conv: "resolve_thread tbl userId opts = Inr (Some (mint_conversation_id (conversations tbl)))"
    using assms(1,2) by (simp add: resolve_thread_def)
  with assms(3) show c: "conversation_id row = Some (mint_conversation_id (conversations tbl))"
    by (auto simp: submit_def Let_def split: sum.splits)
  show f: "mint_conversation_id (conversations tbl) \<notin> set (conversations tbl)"
    by (rule mint_conversation_id_fresh)
  show "\<forall>q\<in>set tbl. conversation_id q \<noteq> conversation_id row"
    using f conversations_member unfolding c by metis
  from assms(3) conv show "tbl1 = tbl @ [row]"
    by (auto simp: submit_def Let_def insert_query_def split: sum.splits if_splits)
qed

section \<open>The document invariant\<close>

lemma write_document_invariant:
  assumes "\<forall>d\<in>set (documents st). document_invariant d" "write_document d entry st = Inr st1"
  shows "\<forall>d\<in>set (documents st1). document_invariant d"
  using assms by (auto simp: write_document_def split: if_splits)

lemma manage_invariant:
  assumes "\<forall>d\<in>set (documents st). document_invariant d" "manage limits st c = Inr st1"
  shows "\<forall>d\<in>set (documents st1). document_invariant d"
proof (cases c)
  case (Intake ownerId bytes mime)
  with assms show ?thesis
    by (auto simp: intake_def split: if_splits dest!: write_document_invariant [rotated])
next
  case (Advance documentId outcome)
  with assms show ?thesis
    by (auto simp: advance_def split: option.splits if_splits ingestion_outcome.splits
        dest!: write_document_invariant [rotated])
next
  case (RecordQuery documentId now)
  with assms show ?thesis
    by (auto simp: recordQuery_def split: option.splits if_splits
        dest!: write_document_invariant [rotated])
next
  case (Retire documentId callerId isAdmin)
  with assms show ?thesis
    by (auto simp: retire_def split: option.splits if_splits
        dest!: write_document_invariant [rotated])
qed

lemma manage_all_invariant:
  "\<forall>d\<in>set (documents st). document_invariant d \<Longrightarrow>
   \<forall>d\<in>set (documents (manage_all limits st cs)). document_invariant d"
proof (induction cs arbitrary: st)
  case Nil
  then show ?case by simp
next
  case (Cons c cs)
  show ?case
  proof (cases "manage limits st c")
    case (Inl e)
    then show ?thesis using Cons by simp
  next
    case (Inr st1)
    then have "\<forall>d\<in>set (documents st1). document_invariant d"
      using manage_invariant Cons.prems by blast
    then show ?thesis using Inr Cons.IH by simp
  qed
qed

lemma advance_completes:
  assumes "find (\<lambda>d. document_id d = documentId) (documents st) = Some d"
    and "processing_status d = Pending \<or> processing_status d = Processing" "reference \<noteq> []"
  shows "\<exists>st1. advance documentId (Ingested reference) st = Inr st1 \<and>
           d\<lparr>processing_status := Completed, notebooklm_document_id := Some reference\<rparr> \<in> set (documents st1)"
proof -
  have "document_id d = documentId" "d \<in> set (documents st)"
    using assms(1) by (auto simp: find_Some_iff)
  then show ?thesis using assms
    by (auto simp: advance_def write_document_def document_invariant_def)
qed

text \<open>
  C6. In every table the orchestrator can produce from the empty one, a query whose
  \<open>parent_query_id\<close> is \<open>p\<close> has the conversation id of the query \<open>p\<close>. And a
  query submitted to any table with no parent and no conversation id is stored with a
  newly minted conversation id, which is the id of no conversation in the table: no
  query of the table has it.
\<close>

theorem conversation_copied_from_parent_or_minted:
  "(\<forall>q\<in>set (orchestrate_all users [] cs). \<forall>p. parent_query_id q = Some p \<longrightarrow>
      (\<exists>parent\<in>set (orchestrate_all users [] cs).
         query_id parent = p \<and> conversation_id q = conversation_id parent)) \<and>
   (opt_parentQueryId opts = None \<and> opt_conversationId opts = None \<and>
    submit users tbl userId question opts = Inr (tbl1, row) \<longrightarrow>
      (\<exists>c. conversation_id row = Some c \<and> c \<notin> set (conversations tbl)) \<and>
      (\<forall>q\<in>set tbl. conversation_id q \<noteq> conversation_id row) \<and> tbl1 = tbl @ [row])"
proof -
  have "threaded []" by (simp add: threaded_def)
  then have "threaded (orchestrate_all users [] cs)"
    by (rule threaded_orchestrate_all)
  then have 1: "\<forall>q\<in>set (orchestrate_all users [] cs). \<forall>p. parent_query_id q = Some p \<longrightarrow>
      (\<exists>parent\<in>set (orchestrate_all users [] cs).
         query_id parent = p \<and> conversation_id q = conversation_id parent)"
    unfolding threaded_def by blast
  have 2: "(\<exists>c. conversation_id row = Some c \<and> c \<notin> set (conversations tbl)) \<and>
      (\<forall>q\<in>set tbl. conversation_id q \<noteq> conversation_id row) \<and> tbl1 = tbl @ [row]"
    if "opt_parentQueryId opts = None" "opt_conversationId opts = None"
      "submit users tbl userId question opts = Inr (tbl1, row)"
    using submit_new_thread [OF that] by blast
  from 1 2 show ?thesis by blast
qed

text \<open>
  A first question opens the conversation \<open>c\<close>; the follow-up inherits it; a third
  question with no parent opens another conversation, \<open>cc\<close>, which neither of the
  first two is in.
\<close>

theorem conversation_copied_from_parent_or_minted_witness:
  "follow_up \<in> set (orchestrate_all [7] []
      [Submit 7 ''What is X?'' no_options,
       Submit 7 ''And Y?'' (no_options\<lparr>opt_parentQueryId := Some 1\<rparr>)]) \<and>
   parent_query_id follow_up = Some 1 \<and>
   (\<exists>parent\<in>set (orchestrate_all [7] []
      [Submit 7 ''What is X?'' no_options,
       Submit 7 ''And Y?'' (no_options\<lparr>opt_parentQueryId := Some 1\<rparr>)]).
      query_id parent = 1 \<and> conversation_id follow_up = conversation_id parent) \<and>
   submit [7] [first_question, follow_up] 7 ''What is Z?'' no_options =
     Inr ([first_question, follow_up, other_question], other_question) \<and>
   conversation_id other_question = Some ''cc'' \<and>
   conversation_id first_question \<noteq> conversation_id other_question \<and>
   conversation_id follow_up \<noteq> conversation_id other_question"
proof -
  let ?cs = "[Submit 7 ''What is X?'' no_options,
              Submit 7 ''And Y?'' (no_options\<lparr>opt_parentQueryId := Some 1\<rparr>)]"
  have e: "orchestrate_all [7] [] ?cs = [first_question, follow_up]"
    by (simp add: submit_def resolve_thread_def insert_query_def not_null_columns_def
        user_rating_check_def references_hold_def next_query_id_def conversations_def
        mint_conversation_id_def no_options_def first_question_def follow_up_def Let_def)
  have m: "follow_up \<in> set (orchestrate_all [7] [] ?cs)"
    unfolding e by simp
  have p: "parent_query_id follow_up = Some 1" by (simp add: follow_up_def)
  have s: "submit [7] [first_question, follow_up] 7 ''What is Z?'' no_options =
             Inr ([first_question, follow_up, other_question], other_question)"
    by (simp add: submit_def resolve_thread_def insert_query_def not_null_columns_def
        user_rating_check_def references_hold_def next_query_id_def conversations_def
        mint_conversation_id_def no_options_def first_question_def follow_up_def
        other_question_def Let_def)
  have o: "opt_parentQueryId no_options = None" "opt_conversationId no_options = None"
    by (simp_all add: no_options_def)
  note t = conversation_copied_from_parent_or_minted [of "[7]" ?cs no_options
      "[first_question, follow_up]" 7 "''What is Z?''"
      "[first_question, follow_up, other_question]" other_question]
  from t [THEN conjunct1, THEN bspec, OF m, THEN spec, THEN mp, OF p]
  have 1: "\<exists>parent\<in>set (orchestrate_all [7] [] ?cs).
             query_id parent = 1 \<and> conversation_id follow_up = conversation_id parent" .
  from t [THEN conjunct2, THEN mp] o s
  have "\<forall>q\<in>set [first_question, follow_up]. conversation_id q \<noteq> conversation_id other_question"
    by blast
  then have 2: "conversation_id first_question \<noteq> conversation_id other_question"
    "conversation_id follow_up \<noteq> conversation_id other_question" by simp_all
  have 3: "conversation_id other_question = Some ''cc''" by (simp add: other_question_def)
  from m p 1 s 2 3 show ?thesis by blast
qed

text \<open>
  C5. The manager writes a document only through the one check of the invariant, so
  after any sequence of its operations, starting with no documents, every document is
  \<open>completed\<close> exactly if its external reference is present and non-empty, and has
  no reference while \<open>processing\<close> or \<open>failed\<close>; and each single operation
  preserves this from any state that has it.
\<close>

theorem document_invariant_at_every_mutation:
  "(\<forall>d\<in>set (documents (manage_all limits \<lparr>documents = [], audit = []\<rparr> cs)).
      ((processing_status d = Completed) = (\<exists>r. notebooklm_document_id d = Some r \<and> r \<noteq> [])) \<and>
      (processing_status d = Processing \<or> processing_status d = Failed \<longrightarrow>
         notebooklm_document_id d = None)) \<and>
   ((\<forall>d\<in>set (documents st). document_invariant d) \<and> manage limits st c = Inr st1 \<longrightarrow>
      (\<forall>d\<in>set (documents st1). document_invariant d))"
proof -
  have "\<forall>d\<in>set (documents (manage_all limits \<lparr>documents = [], audit = []\<rparr> cs)). document_invariant d"
    by (rule manage_all_invariant) simp
  then have 1: "\<forall>d\<in>set (documents (manage_all limits \<lparr>documents = [], audit = []\<rparr> cs)).
      ((processing_status d = Completed) = (\<exists>r. notebooklm_document_id d = Some r \<and> r \<noteq> [])) \<and>
      (processing_status d = Processing \<or> processing_status d = Failed \<longrightarrow>
         notebooklm_document_id d = None)"
    unfolding document_invariant_def by blast
  have 2: "(\<forall>d\<in>set (documents st). document_invariant d) \<and> manage limits st c = Inr st1 \<longrightarrow>
      (\<forall>d\<in>set (documents st1). document_invariant d)"
    using manage_invariant by blast
  from 1 2 show ?thesis by blast
qed

text \<open>
  A PDF of 2 MB is taken in, ingested under the reference \<open>nb-1\<close> and queried once; a
  second document is reported ingested with an empty reference, which is refused, so it
  stays pending.
\<close>

theorem document_invariant_at_every_mutation_witness:
  "ingested_pdf \<in> set (documents (manage_all pdf_only \<lparr>documents = [], audit = []\<rparr>
        [Intake 7 2097152 ''application/pdf'', Advance 1 (Ingested ''nb-1''), RecordQuery 1 100,
         Intake 7 1024 ''application/pdf'', Advance 2 (Ingested [])])) \<and>
   processing_status ingested_pdf = Completed \<and>
   (\<exists>r. notebooklm_document_id ingested_pdf = Some r \<and> r \<noteq> []) \<and>
   map processing_status (documents (manage_all pdf_only \<lparr>documents = [], audit = []\<rparr>
        [Intake 7 2097152 ''application/pdf'', Advance 1 (Ingested ''nb-1''), RecordQuery 1 100,
         Intake 7 1024 ''application/pdf'', Advance 2 (Ingested [])])) = [Completed, Pending]"
proof -
  let ?cs = "[Intake 7 2097152 ''application/pdf'', Advance 1 (Ingested ''nb-1''), RecordQuery 1 100,
              Intake 7 1024 ''application/pdf'', Advance 2 (Ingested [])]"
  have e: "documents (manage_all pdf_only \<lparr>documents = [], audit = []\<rparr> ?cs) =
             [ingested_pdf, ingested_pdf\<lparr>document_id := 2, file_size := 1024,
                 notebooklm_document_id := None, processing_status := Pending, query_count := 0,
                 last_queried_at := None\<rparr>]"
    by (simp add: intake_def advance_def recordQuery_def write_document_def document_invariant_def
        pdf_only_def ingested_pdf_def)
  have m: "ingested_pdf \<in> set (documents (manage_all pdf_only \<lparr>documents = [], audit = []\<rparr> ?cs))"
    unfolding e by simp
  have c: "processing_status ingested_pdf = Completed" by (simp add: ingested_pdf_def)
  from document_invariant_at_every_mutation [of pdf_only ?cs, THEN conjunct1, THEN bspec, OF m,
      THEN conjunct1] c
  have "\<exists>r. notebooklm_document_id ingested_pdf = Some r \<and> r \<noteq> []" by simp
  with m c show ?thesis unfolding e by (simp add: ingested_pdf_def)
qed

end
